theory Spec2Isabelle
  imports Main
begin

section \<open>The model\<close>

text \<open>
  A model of the uploader \<open>gcs.js\<close> and of its chunk source \<open>steamer.js\<close>.

  The page runs on one thread. Each call of the page on the Upload, and each callback
  that the browser runs (the session request settles, the reader finishes, a chunk
  request settles), is one event; a run is a list of events, and \<open>step\<close> is what one
  event does to the Upload, to the Steamer and to the requests in flight. The service
  and the file reader are not modelled: their answers are the events.

  What leaves the program is recorded: every chunk request handed to \<open>fetch\<close>, and
  every call of a listener. Listeners are callbacks that only record their calls; they
  do not call back into the Upload.
\<close>

section \<open>Values\<close>

text \<open>
  The offset argument of \<open>doUpload\<close> and \<open>Steamer.next\<close> is one of: absent
  (\<open>undefined\<close>), a number, \<open>NaN\<close> (what \<open>parseInt\<close> gives on a string without
  digits) or the constant \<open>RESUME_OFFSET = '*'\<close>. JavaScript numbers are modelled as
  unbounded integers (file sizes stay far below \<open>2^53\<close>).
\<close>

datatype offset = Absent | Offset int | NaN | RESUME_OFFSET

text \<open>JavaScript truthiness of such a value: \<open>undefined\<close>, \<open>0\<close> and \<open>NaN\<close> are falsy.\<close>

fun truthy :: "offset \<Rightarrow> bool" where
  "truthy Absent = False"
| "truthy (Offset n) = (n \<noteq> 0)"
| "truthy NaN = False"
| "truthy RESUME_OFFSET = True"

datatype jserror =
    Error string
  | TypeError
  | ReferenceError
  | InvalidStateError
  | NetworkError
  | ReaderError

text \<open>Upload states.\<close>

datatype upload_state = DONE | INPROGRESS | PAUSE | CANCEL

section \<open>Listeners and the calls they receive\<close>

text \<open>
  A listener is a callback function, identified by a number; it only records what it is
  called with. \<open>Call k cb a\<close> is one invocation of the callback \<open>cb\<close>, installed for
  the kind \<open>k\<close>, with the argument \<open>a\<close> (\<open>None\<close> when it is invoked without
  argument, as in \<open>self._ondone()\<close>).
\<close>

datatype kind = Onprogress | Onerror | Ondone | Oncancel | Onpause

datatype arg = Arg_offset offset | Arg_error jserror | Arg_bool bool

datatype call = Call kind nat "arg option"

text \<open>
  \<open>clearEventQueue\<close>: \<open>while (eventQueue.length) event(eventQueue.shift())\<close>.
  The result is the queue after the loop and the calls made, in order.
\<close>

fun clearEventQueue :: "'a list \<Rightarrow> ('a \<Rightarrow> call) \<Rightarrow> 'a list \<times> call list" where
  "clearEventQueue [] event = ([], [])"
| "clearEventQueue (x # eventQueue) event =
     (case clearEventQueue eventQueue event of (q, cs) \<Rightarrow> (q, event x # cs))"

text \<open>\<open>queue[0] = v\<close> on a JavaScript array: an empty array gets length one.\<close>

fun set_slot0 :: "'a list \<Rightarrow> 'a \<Rightarrow> 'a list" where
  "set_slot0 [] v = [v]"
| "set_slot0 (x # xs) v = v # xs"

section \<open>Steamer\<close>

record File =
  file_name :: string
  file_size :: nat
  file_type :: string

text \<open>
  The \<open>FileReader\<close> of a Steamer: idle, or loading a blob \<open>(start, length)\<close> of the
  file. \<open>waiter\<close> is the offset argument of the \<open>doUpload\<close> call whose promise the
  handlers now installed on the reader settle; it is \<open>None\<close> when these handlers
  belong to a promise that is already rejected.
\<close>

datatype reader = Idle | Loading int int "offset option"

record Steamer =
  steamer_file :: File
  chunkSize :: int
  progress :: int
  reader :: reader

definition DEFAULT_CHUNK_SIZE :: int where
  "DEFAULT_CHUNK_SIZE = 256 * 1024 * 4"

text \<open>
  The constructor: it throws when the browser has no File API (\<open>has_file_api\<close> stands
  for \<open>window.File && window.FileReader\<close>) or when the file is falsy;
  \<open>chunkSize || DEFAULT_CHUNK_SIZE\<close> also replaces a chunk size of 0.
\<close>

definition new_Steamer :: "bool \<Rightarrow> File option \<Rightarrow> int option \<Rightarrow> jserror + Steamer" where
  "new_Steamer has_file_api filename chunk_size =
     (if \<not> has_file_api then Inl (Error ''Unsupported File API'')
      else case filename of
        None \<Rightarrow> Inl (Error ''Missing mandatory file name'')
      | Some f \<Rightarrow>
          Inr \<lparr> steamer_file = f,
                chunkSize = (case chunk_size of
                               None \<Rightarrow> DEFAULT_CHUNK_SIZE
                             | Some c \<Rightarrow> if c = 0 then DEFAULT_CHUNK_SIZE else c),
                progress = 0,
                reader = Idle \<rparr>)"

text \<open>
  \<open>Blob.slice(start, end)\<close> on a blob of \<open>size\<close> bytes: the first byte and the
  length of the slice (negative positions count from the end; both are clamped).
\<close>

definition slice :: "int \<Rightarrow> int \<Rightarrow> int \<Rightarrow> int \<times> int" where
  "slice sz start stop =
     (let relativeStart = (if start < 0 then max (sz + start) 0 else min start sz);
          relativeEnd = (if stop < 0 then max (sz + stop) 0 else min stop sz)
      in (relativeStart, max (relativeEnd - relativeStart) 0))"

text \<open>
  What the promise returned by \<open>next\<close> is right after the call: fulfilled with
  \<open>undefined\<close>, pending on the reader, or rejected because \<open>readAsArrayBuffer\<close> threw
  inside the promise executor.
\<close>

datatype next_promise = Fulfilled_undefined | Pending | Rejected jserror

text \<open>
  \<open>Steamer.next(offset)\<close>, the synchronous part. \<open>offset || this.progress\<close> takes the
  cursor for every falsy offset. The handlers are installed before
  \<open>readAsArrayBuffer\<close> is called, and that call throws \<open>InvalidStateError\<close> while
  the reader is loading.
\<close>

definition Steamer_next :: "Steamer \<Rightarrow> offset \<Rightarrow> Steamer \<times> next_promise" where
  "Steamer_next st offset =
     (if offset = RESUME_OFFSET then (st, Fulfilled_undefined)
      else
        let offset' = (case offset of Offset n \<Rightarrow> if n \<noteq> 0 then n else progress st
                                     | _ \<Rightarrow> progress st);
            limit = offset' + chunkSize st;
            limit = (if limit \<le> int (file_size (steamer_file st)) then limit
                     else int (file_size (steamer_file st)));
            blob = slice (int (file_size (steamer_file st))) offset' limit
        in case reader st of
             Idle \<Rightarrow> (st\<lparr>reader := Loading (fst blob) (snd blob) (Some offset)\<rparr>, Pending)
           | Loading s l w \<Rightarrow> (st\<lparr>reader := Loading s l None\<rparr>, Rejected InvalidStateError))"

text \<open>A chunk: which bytes of the file \<open>data\<close> holds, and \<open>size = event.loaded\<close>.\<close>

record chunk =
  data_start :: int
  chunk_size :: int

text \<open>
  The \<open>loadend\<close> handler after a successful read: \<open>event.loaded\<close> is the length of
  the blob; the cursor advances by it and the promise of the waiter, if any, is
  fulfilled with the chunk. The test \<open>!event.target.readyState == FileReader.DONE\<close>
  is \<open>false == 2\<close>, which never holds.
\<close>

definition Steamer_onloadend :: "Steamer \<Rightarrow> Steamer \<times> (offset \<times> chunk) option" where
  "Steamer_onloadend st =
     (case reader st of
        Idle \<Rightarrow> (st, None)
      | Loading s l w \<Rightarrow>
          (st\<lparr>progress := progress st + l, reader := Idle\<rparr>,
           case w of None \<Rightarrow> None
                   | Some offset \<Rightarrow> Some (offset, \<lparr>data_start = s, chunk_size = l\<rparr>)))"

text \<open>
  A failed read: \<open>onerror = reject\<close> runs first, then the \<open>loadend\<close> handler adds
  \<open>event.loaded\<close> (given by the browser) to the cursor; its \<open>resolve\<close> has no effect
  on the rejected promise.
\<close>

definition Steamer_onerror :: "Steamer \<Rightarrow> int \<Rightarrow> Steamer \<times> offset option" where
  "Steamer_onerror st loaded =
     (case reader st of
        Idle \<Rightarrow> (st, None)
      | Loading s l w \<Rightarrow> (st\<lparr>progress := progress st + loaded, reader := Idle\<rparr>, w))"

section \<open>Upload\<close>

text \<open>
  The fields of \<open>this.state\<close> are \<open>state_progress\<close> ... \<open>state_pause\<close>; the
  callbacks \<open>_onprogress\<close> ... \<open>_onpause\<close> are absent until set. \<open>calls\<close> is not a
  field of the source: it records, in order, every invocation of a callback.
\<close>

record Upload =
  eventQueue_onprogress :: "offset list"
  eventQueue_onerror :: "jserror list"
  eventQueue_ondone :: "bool list"
  eventQueue_oncancel :: "bool list"
  eventQueue_onpause :: "bool list"
  upload_size :: int
  contentType :: string
  steamer :: Steamer
  sessionUri :: "string option"
  state_progress :: offset
  state_error :: "jserror option"
  state_done :: bool
  state_cancel :: bool
  state_pause :: bool
  onprogress :: "nat option"
  onerror :: "nat option"
  ondone :: "nat option"
  oncancel :: "nat option"
  onpause :: "nat option"
  calls :: "call list"

definition new_Upload :: "int \<Rightarrow> string \<Rightarrow> Steamer \<Rightarrow> Upload" where
  "new_Upload sz ct stm =
     \<lparr> eventQueue_onprogress = [], eventQueue_onerror = [], eventQueue_ondone = [],
       eventQueue_oncancel = [], eventQueue_onpause = [],
       upload_size = sz, contentType = ct, steamer = stm, sessionUri = None,
       state_progress = Offset 0, state_error = None, state_done = False,
       state_cancel = False, state_pause = False,
       onprogress = None, onerror = None, ondone = None, oncancel = None, onpause = None,
       calls = [] \<rparr>"

subsection \<open>The setters of \<open>this.state\<close>\<close>

definition state_set_progress :: "Upload \<Rightarrow> offset \<Rightarrow> Upload" where
  "state_set_progress u offset =
     (if \<not> truthy offset \<or> offset = RESUME_OFFSET then u
      else case onprogress u of
        None \<Rightarrow> u\<lparr>eventQueue_onprogress := eventQueue_onprogress u @ [offset]\<rparr>
      | Some cb \<Rightarrow>
          u\<lparr>state_progress := offset,
            calls := calls u @ [Call Onprogress cb (Some (Arg_offset offset))]\<rparr>)"

definition state_set_error :: "Upload \<Rightarrow> jserror \<Rightarrow> Upload" where
  "state_set_error u error =
     (case onerror u of
        None \<Rightarrow> u\<lparr>eventQueue_onerror := eventQueue_onerror u @ [error]\<rparr>
      | Some cb \<Rightarrow>
          u\<lparr>state_error := Some error,
            calls := calls u @ [Call Onerror cb (Some (Arg_error error))]\<rparr>)"

definition state_set_done :: "Upload \<Rightarrow> bool \<Rightarrow> Upload" where
  "state_set_done u d =
     (if \<not> d then u
      else let u' = u\<lparr>state_done := True\<rparr> in
        case ondone u' of
          None \<Rightarrow> u'\<lparr>eventQueue_ondone := set_slot0 (eventQueue_ondone u') True\<rparr>
        | Some cb \<Rightarrow> u'\<lparr>calls := calls u' @ [Call Ondone cb None]\<rparr>)"

definition state_set_cancel :: "Upload \<Rightarrow> bool \<Rightarrow> Upload" where
  "state_set_cancel u c =
     (if \<not> c then u
      else let u' = u\<lparr>state_cancel := c\<rparr> in
        case oncancel u' of
          None \<Rightarrow> u'\<lparr>eventQueue_oncancel := set_slot0 (eventQueue_oncancel u') c\<rparr>
        | Some cb \<Rightarrow> u'\<lparr>calls := calls u' @ [Call Oncancel cb None]\<rparr>)"

definition state_set_pause :: "Upload \<Rightarrow> bool \<Rightarrow> Upload" where
  "state_set_pause u p =
     (let u' = u\<lparr>state_pause := p\<rparr> in
        case onpause u' of
          None \<Rightarrow> u'\<lparr>eventQueue_onpause := set_slot0 (eventQueue_onpause u') p\<rparr>
        | Some cb \<Rightarrow>
            if \<not> p then u'
            else u'\<lparr>calls := calls u' @ [Call Onpause cb None]\<rparr>)"

subsection \<open>The methods of the prototype that touch the Upload only\<close>

definition Upload_cancel :: "Upload \<Rightarrow> Upload" where
  "Upload_cancel u = state_set_cancel u True"

definition Upload_done :: "Upload \<Rightarrow> Upload" where
  "Upload_done u = state_set_done u True"

definition Upload_pause :: "Upload \<Rightarrow> Upload" where
  "Upload_pause u = state_set_pause u True"

definition currentState :: "Upload \<Rightarrow> upload_state" where
  "currentState u =
     (if state_done u then DONE
      else if state_cancel u then CANCEL
      else if state_pause u then PAUSE
      else INPROGRESS)"

definition set_onprogress :: "Upload \<Rightarrow> nat \<Rightarrow> Upload" where
  "set_onprogress u cb =
     (let u' = u\<lparr>onprogress := Some cb\<rparr> in
      case clearEventQueue (eventQueue_onprogress u')
             (\<lambda>x. Call Onprogress cb (Some (Arg_offset x))) of
        (q, cs) \<Rightarrow> u'\<lparr>eventQueue_onprogress := q, calls := calls u' @ cs\<rparr>)"

definition set_onerror :: "Upload \<Rightarrow> nat \<Rightarrow> Upload" where
  "set_onerror u cb =
     (let u' = u\<lparr>onerror := Some cb\<rparr> in
      case clearEventQueue (eventQueue_onerror u')
             (\<lambda>x. Call Onerror cb (Some (Arg_error x))) of
        (q, cs) \<Rightarrow> u'\<lparr>eventQueue_onerror := q, calls := calls u' @ cs\<rparr>)"

definition set_ondone :: "Upload \<Rightarrow> nat \<Rightarrow> Upload" where
  "set_ondone u cb =
     (let u' = u\<lparr>ondone := Some cb\<rparr> in
      case clearEventQueue (eventQueue_ondone u')
             (\<lambda>x. Call Ondone cb (Some (Arg_bool x))) of
        (q, cs) \<Rightarrow> u'\<lparr>eventQueue_ondone := q, calls := calls u' @ cs\<rparr>)"

definition set_oncancel :: "Upload \<Rightarrow> nat \<Rightarrow> Upload" where
  "set_oncancel u cb =
     (let u' = u\<lparr>oncancel := Some cb\<rparr> in
      case clearEventQueue (eventQueue_oncancel u')
             (\<lambda>x. Call Oncancel cb (Some (Arg_bool x))) of
        (q, cs) \<Rightarrow> u'\<lparr>eventQueue_oncancel := q, calls := calls u' @ cs\<rparr>)"

definition set_onpause :: "Upload \<Rightarrow> nat \<Rightarrow> Upload" where
  "set_onpause u cb =
     (let u' = u\<lparr>onpause := Some cb\<rparr> in
      case clearEventQueue (eventQueue_onpause u')
             (\<lambda>x. Call Onpause cb (Some (Arg_bool x))) of
        (q, cs) \<Rightarrow> u'\<lparr>eventQueue_onpause := q, calls := calls u' @ cs\<rparr>)"

section \<open>Strings\<close>

text \<open>A number inside a template literal, \<open>`${n}`\<close>.\<close>

definition digit_char :: "nat \<Rightarrow> char" where
  "digit_char d = ''0123456789'' ! d"

fun show_nat :: "nat \<Rightarrow> string" where
  "show_nat n =
     (if n < 10 then [digit_char n] else show_nat (n div 10) @ [digit_char (n mod 10)])"

declare show_nat.simps [simp del]

definition to_string :: "int \<Rightarrow> string" where
  "to_string i = (if i < 0 then CHR ''-'' # show_nat (nat (- i)) else show_nat (nat i))"

text \<open>\<open>s.split(c)\<close> for a one-character separator.\<close>

fun split_js :: "char \<Rightarrow> string \<Rightarrow> string list" where
  "split_js c [] = [Nil]"
| "split_js c (x # xs) =
     (if x = c then [] # split_js c xs
      else case split_js c xs of
             [] \<Rightarrow> [x # Nil]
           | p # ps \<Rightarrow> (x # p) # ps)"

text \<open>\<open>a[i]\<close> on an array: \<open>undefined\<close> beyond its end.\<close>

fun at_index :: "'a list \<Rightarrow> nat \<Rightarrow> 'a option" where
  "at_index [] i = None"
| "at_index (x # xs) i = (case i of 0 \<Rightarrow> Some x | Suc j \<Rightarrow> at_index xs j)"

text \<open>
  \<open>parseInt(s)\<close> without radix: leading white space is skipped (the characters of one
  byte that \<open>StrWhiteSpaceChar\<close> has), then a sign, then \<open>0x\<close> or \<open>0X\<close> selects radix
  16; the longest prefix of digits is read; no digit gives \<open>NaN\<close>. The result is the
  exact integer: it is what JavaScript computes for values below \<open>2^53\<close>, above which
  JavaScript rounds to a double.
\<close>

definition is_space :: "char \<Rightarrow> bool" where
  "is_space c \<longleftrightarrow>
     c \<in> set [CHR 0x09, CHR 0x0A, CHR 0x0B, CHR 0x0C, CHR 0x0D, CHR 0x20, CHR 0xA0]"

definition digit_value :: "char \<Rightarrow> nat option" where
  "digit_value c =
     map_of [(CHR ''0'', 0), (CHR ''1'', 1), (CHR ''2'', 2), (CHR ''3'', 3), (CHR ''4'', 4),
             (CHR ''5'', 5), (CHR ''6'', 6), (CHR ''7'', 7), (CHR ''8'', 8), (CHR ''9'', 9),
             (CHR ''a'', 10), (CHR ''b'', 11), (CHR ''c'', 12), (CHR ''d'', 13),
             (CHR ''e'', 14), (CHR ''f'', 15),
             (CHR ''A'', 10), (CHR ''B'', 11), (CHR ''C'', 12), (CHR ''D'', 13),
             (CHR ''E'', 14), (CHR ''F'', 15)] c"

fun parse_digits :: "nat \<Rightarrow> nat \<Rightarrow> string \<Rightarrow> nat" where
  "parse_digits R acc [] = acc"
| "parse_digits R acc (c # cs) =
     (case digit_value c of
        None \<Rightarrow> acc
      | Some d \<Rightarrow> if d < R then parse_digits R (acc * R + d) cs else acc)"

definition is_digit :: "nat \<Rightarrow> string \<Rightarrow> bool" where
  "is_digit R s =
     (case s of [] \<Rightarrow> False
      | c # cs \<Rightarrow> (case digit_value c of None \<Rightarrow> False | Some d \<Rightarrow> d < R))"

definition parseInt :: "string \<Rightarrow> offset" where
  "parseInt s =
     (let s1 = dropWhile is_space s;
          sign = (if take 1 s1 = ''-'' then - 1 else 1);
          s2 = (if take 1 s1 = ''-'' \<or> take 1 s1 = ''+'' then drop 1 s1 else s1);
          R = (if take 2 s2 = ''0x'' \<or> take 2 s2 = ''0X'' then 16 else 10);
          s3 = (if R = 16 then drop 2 s2 else s2)
      in if is_digit R s3 then Offset (sign * int (parse_digits R 0 s3)) else NaN)"

section \<open>Chunk requests\<close>

text \<open>
  A \<open>PUT\<close> handed to \<open>fetch\<close>. \<open>body\<close> is \<open>chunk.data\<close>, given by the chunk it
  comes from; \<open>None\<close> when \<open>options.body\<close> is not set.
\<close>

record request =
  url :: "string option"
  http_method :: string
  mode :: string
  headers :: "(string \<times> string) list"
  body :: "chunk option"

text \<open>
  \<open>uploadChunk\<close>, up to the call of \<open>fetch\<close>. Reading \<open>chunk.size\<close> of an
  undefined chunk throws a \<open>TypeError\<close>.
\<close>

definition uploadChunk :: "string option \<Rightarrow> chunk option \<Rightarrow> string \<Rightarrow> string \<Rightarrow> jserror + request" where
  "uploadChunk uri chunk ct rng =
     (if CHR ''*'' \<notin> set rng then
        (case chunk of
           None \<Rightarrow> Inl TypeError
         | Some c \<Rightarrow>
             Inr \<lparr> url = uri, http_method = ''put'', mode = ''cors'',
                   headers = [(''Access-Control-Allow-Origin'', ''*''),
                              (''Content-Length'', to_string (chunk_size c)),
                              (''Content-Type'', ct),
                              (''Content-Range'', rng)],
                   body = Some c \<rparr>)
      else
        Inr \<lparr> url = uri, http_method = ''put'', mode = ''cors'',
              headers = [(''Access-Control-Allow-Origin'', ''*'')],
              body = None \<rparr>)"

text \<open>The response of the service: its status and its \<open>Range\<close> header, if any.\<close>

record response =
  status :: nat
  range_header :: "string option"

text \<open>What \<open>uploadChunk\<close> resolves with: \<open>{ done: true }\<close> or \<open>{ offset: ... }\<close>.\<close>

datatype result = Result_done | Result_offset offset

definition invalid_range_message :: string where
  "invalid_range_message = ''Invalid '' @ [CHR 0x27] @ ''Range'' @ [CHR 0x27] @ '' header received''"

text \<open>
  The callback of \<open>uploadChunk\<close> on the response. \<open>response.headers.get('Range')\<close> is
  \<open>null\<close> without the header, and \<open>null.split\<close> throws a \<open>TypeError\<close>.
\<close>

definition uploadChunk_then :: "response \<Rightarrow> jserror + result" where
  "uploadChunk_then r =
     (if status r = 200 \<or> status r = 201 then Inr Result_done
      else if status r = 308 then
        (case range_header r of
           None \<Rightarrow> Inl TypeError
         | Some rangeHeader \<Rightarrow>
             (case at_index (split_js CHR ''-'' rangeHeader) 1 of
                None \<Rightarrow> Inl (Error invalid_range_message)
              | Some lastByteReceived \<Rightarrow>
                  if lastByteReceived = [] then Inl (Error invalid_range_message)
                  else Inr (Result_offset (parseInt lastByteReceived))))
      else Inr (Result_offset RESUME_OFFSET))"

text \<open>The \<open>range\<close> string that \<open>doUpload\<close> builds for a chunk.\<close>

definition content_range :: "offset \<Rightarrow> chunk option \<Rightarrow> int \<Rightarrow> jserror + string" where
  "content_range offset chunk sz =
     (case
        (if truthy offset then
           (case offset of
              Offset n \<Rightarrow>
                (case chunk of
                   None \<Rightarrow> Inl TypeError
                 | Some c \<Rightarrow>
                     Inr (''bytes '' @ to_string n @ ''-'' @ to_string (n + chunk_size c - 1)))
            | _ \<Rightarrow> Inr ''bytes *'')
         else
           (case chunk of
              None \<Rightarrow> Inl TypeError
            | Some c \<Rightarrow> Inr (''bytes 0-'' @ to_string (chunk_size c - 1))))
      of Inl e \<Rightarrow> Inl e
       | Inr rng \<Rightarrow> Inr (rng @ ''/'' @ to_string sz))"

section \<open>The transfer loop\<close>

text \<open>
  The page and what is pending in the browser: the Upload, whether the session request
  is pending, the chunk requests that wait for their response (each with the offset
  argument of the \<open>doUpload\<close> call that sent it), and every chunk request sent so far.
\<close>

record world =
  upload :: Upload
  negotiating :: bool
  in_flight :: "(offset \<times> request) list"
  requests :: "request list"

text \<open>The first callback of \<open>doUpload\<close>: it builds the range and calls \<open>uploadChunk\<close>.\<close>

definition doUpload_chunk :: "world \<Rightarrow> offset \<Rightarrow> chunk option \<Rightarrow> jserror + world" where
  "doUpload_chunk w offset chunk =
     (case content_range offset chunk (upload_size (upload w)) of
        Inl e \<Rightarrow> Inl e
      | Inr rng \<Rightarrow>
          (case uploadChunk (sessionUri (upload w)) chunk (contentType (upload w)) rng of
             Inl e \<Rightarrow> Inl e
           | Inr rq \<Rightarrow>
               Inr (w\<lparr>in_flight := in_flight w @ [(offset, rq)],
                      requests := requests w @ [rq]\<rparr>)))"

text \<open>
  \<open>doUpload\<close> up to the point where it waits for the browser, and its \<open>catch\<close>
  callback. A promise that is already settled runs its callback before any other event,
  so the callback is run here.
\<close>

function doUpload :: "world \<Rightarrow> offset \<Rightarrow> world"
  and doUpload_catch :: "world \<Rightarrow> jserror \<Rightarrow> world" where
  "doUpload w offset =
     (case Steamer_next (steamer (upload w)) offset of
        (st, Fulfilled_undefined) \<Rightarrow>
          (case doUpload_chunk (w\<lparr>upload := (upload w)\<lparr>steamer := st\<rparr>\<rparr>) offset None of
             Inl e \<Rightarrow> doUpload_catch (w\<lparr>upload := (upload w)\<lparr>steamer := st\<rparr>\<rparr>) e
           | Inr w' \<Rightarrow> w')
      | (st, Pending) \<Rightarrow> w\<lparr>upload := (upload w)\<lparr>steamer := st\<rparr>\<rparr>
      | (st, Rejected e) \<Rightarrow> doUpload_catch (w\<lparr>upload := (upload w)\<lparr>steamer := st\<rparr>\<rparr>) e)"
| "doUpload_catch w error =
     (let w' = w\<lparr>upload := state_set_error (upload w) error\<rparr> in
      if currentState (upload w') = INPROGRESS then doUpload w' RESUME_OFFSET else w')"
  by pat_completeness auto
termination
proof (relation "measure (\<lambda>x. case x of
          Inl (w, offset) \<Rightarrow> (if offset = RESUME_OFFSET then 0 else 2)
        | Inr (w, e) \<Rightarrow> 1)")
  show "wf (measure (\<lambda>x. case x of
          Inl (w, offset) \<Rightarrow> (if offset = RESUME_OFFSET then 0 else 2)
        | Inr (w, e) \<Rightarrow> (1::nat)))"
    by simp
next
  fix w :: world and offset st p e
  assume "(st, p) = Steamer_next (steamer (upload w)) offset" "p = Fulfilled_undefined"
    "doUpload_chunk (w\<lparr>upload := (upload w)\<lparr>steamer := st\<rparr>\<rparr>) offset None = Inl e"
  then have False
    by (cases "offset = RESUME_OFFSET")
      (auto simp: Steamer_next_def doUpload_chunk_def content_range_def uploadChunk_def
            Let_def split: reader.splits)
  then show "(Inr (w\<lparr>upload := (upload w)\<lparr>steamer := st\<rparr>\<rparr>, e), Inl (w, offset))
        \<in> measure (\<lambda>x. case x of
          Inl (w, offset) \<Rightarrow> (if offset = RESUME_OFFSET then 0 else 2)
        | Inr (w, e) \<Rightarrow> 1)"
    by simp
next
  fix w :: world and offset st p e
  assume "(st, p) = Steamer_next (steamer (upload w)) offset" "p = Rejected e"
  then have "offset \<noteq> RESUME_OFFSET"
    by (auto simp: Steamer_next_def)
  then show "(Inr (w\<lparr>upload := (upload w)\<lparr>steamer := st\<rparr>\<rparr>, e), Inl (w, offset))
        \<in> measure (\<lambda>x. case x of
          Inl (w, offset) \<Rightarrow> (if offset = RESUME_OFFSET then 0 else 2)
        | Inr (w, e) \<Rightarrow> 1)"
    by simp
next
  fix w w' :: world and error :: jserror
  show "(Inl (w', RESUME_OFFSET), Inr (w, error))
        \<in> measure (\<lambda>x. case x of
          Inl (w, offset) \<Rightarrow> (if offset = RESUME_OFFSET then 0 else 2)
        | Inr (w, e) \<Rightarrow> 1)"
    by simp
qed

declare doUpload.simps [simp del] doUpload_catch.simps [simp del]

text \<open>The second callback of \<open>doUpload\<close>, on what \<open>uploadChunk\<close> resolved with.\<close>

definition doUpload_then :: "world \<Rightarrow> offset \<Rightarrow> result \<Rightarrow> world" where
  "doUpload_then w offset response =
     (if currentState (upload w) \<noteq> INPROGRESS then w
      else case response of
        Result_done \<Rightarrow> w\<lparr>upload := Upload_done (upload w)\<rparr>
      | Result_offset response_offset \<Rightarrow>
          if truthy response_offset then
            doUpload (w\<lparr>upload := state_set_progress (upload w) offset\<rparr>) response_offset
          else doUpload_catch w (Error ''Unexpected response''))"

text \<open>\<open>resume()\<close>: it clears the pause flag and calls \<open>doUpload\<close>.\<close>

definition Upload_resume :: "world \<Rightarrow> world" where
  "Upload_resume w = doUpload (w\<lparr>upload := state_set_pause (upload w) False\<rparr>) RESUME_OFFSET"

section \<open>Session negotiation and \<open>run\<close>\<close>

text \<open>
  The body of the session response as \<open>response.json()\<close> reads it: not JSON, the value
  \<open>null\<close>, or a value whose property \<open>data\<close> is a string or is missing.
\<close>

datatype json_body = Not_json | Json_null | Json_data "string option"

datatype session_outcome = Session_failed | Session_response nat json_body

text \<open>
  The callbacks of \<open>getSessionUri\<close>: a rejected \<open>fetch\<close>, a status other than 200 and
  201, a body that is not JSON and destructuring \<open>null\<close> all reject the promise.
\<close>

definition getSessionUri :: "session_outcome \<Rightarrow> jserror + string option" where
  "getSessionUri out =
     (case out of
        Session_failed \<Rightarrow> Inl NetworkError
      | Session_response st b \<Rightarrow>
          if st \<noteq> 201 \<and> st \<noteq> 200 then Inl (Error ''Could not get session URL from GCS'')
          else (case b of
                  Not_json \<Rightarrow> Inl (Error ''SyntaxError'')
                | Json_null \<Rightarrow> Inl TypeError
                | Json_data d \<Rightarrow> Inr d))"

text \<open>
  \<open>run(file)\<close>: a falsy file is \<open>None\<close>. \<open>run\<close> calls \<open>getSessionUri\<close>, and that
  calls \<open>fetch\<close>, before it returns: where the browser has no \<open>fetch\<close>
  (\<open>has_fetch\<close> is false) the call throws a \<open>ReferenceError\<close>. Otherwise \<open>run\<close>
  returns while the session request is pending; the request for the session is not a
  chunk request and is not recorded.
\<close>

definition run :: "bool \<Rightarrow> bool \<Rightarrow> File option \<Rightarrow> jserror + world" where
  "run has_file_api has_fetch f =
     (case f of
        None \<Rightarrow> Inl (Error ''You need to provide a file to upload'')
      | Some fl \<Rightarrow>
          (case new_Steamer has_file_api (Some fl) None of
             Inl e \<Rightarrow> Inl e
           | Inr stm \<Rightarrow>
               if \<not> has_fetch then Inl ReferenceError
               else Inr \<lparr> upload = new_Upload (int (file_size fl)) (file_type fl) stm,
                          negotiating = True, in_flight = [], requests = [] \<rparr>))"

text \<open>The two callbacks that \<open>run\<close> attaches to \<open>getSessionUri\<close>.\<close>

definition run_then :: "world \<Rightarrow> session_outcome \<Rightarrow> world" where
  "run_then w out =
     (case getSessionUri out of
        Inl error \<Rightarrow> w\<lparr>upload := state_set_error (upload w) error\<rparr>
      | Inr uri \<Rightarrow> doUpload (w\<lparr>upload := (upload w)\<lparr>sessionUri := uri\<rparr>\<rparr>) Absent)"

section \<open>Events\<close>

text \<open>
  What the page can call on the Upload, and what the browser can report: the session
  request settles, the reader finishes or fails (with the \<open>loaded\<close> of its
  \<open>loadend\<close> event), the chunk request at a position of \<open>in_flight\<close> settles.
\<close>

datatype api =
    Cancel | Pause | Resume | Mark_done
  | Set_progress offset | Set_error jserror
  | Listen_progress nat | Listen_error nat | Listen_done nat | Listen_cancel nat
  | Listen_pause nat

datatype fetch_outcome = Fetch_failed | Fetch_response response

datatype event =
    Api api
  | Session_settled session_outcome
  | Read_loadend
  | Read_error int
  | Fetch_settled nat fetch_outcome

definition api_call :: "world \<Rightarrow> api \<Rightarrow> world" where
  "api_call w a =
     (case a of
        Cancel \<Rightarrow> w\<lparr>upload := Upload_cancel (upload w)\<rparr>
      | Pause \<Rightarrow> w\<lparr>upload := Upload_pause (upload w)\<rparr>
      | Resume \<Rightarrow> Upload_resume w
      | Mark_done \<Rightarrow> w\<lparr>upload := Upload_done (upload w)\<rparr>
      | Set_progress offset \<Rightarrow> w\<lparr>upload := state_set_progress (upload w) offset\<rparr>
      | Set_error e \<Rightarrow> w\<lparr>upload := state_set_error (upload w) e\<rparr>
      | Listen_progress cb \<Rightarrow> w\<lparr>upload := set_onprogress (upload w) cb\<rparr>
      | Listen_error cb \<Rightarrow> w\<lparr>upload := set_onerror (upload w) cb\<rparr>
      | Listen_done cb \<Rightarrow> w\<lparr>upload := set_ondone (upload w) cb\<rparr>
      | Listen_cancel cb \<Rightarrow> w\<lparr>upload := set_oncancel (upload w) cb\<rparr>
      | Listen_pause cb \<Rightarrow> w\<lparr>upload := set_onpause (upload w) cb\<rparr>)"

text \<open>The list without its element at position \<open>i\<close>.\<close>

definition remove_at :: "'a list \<Rightarrow> nat \<Rightarrow> 'a list" where
  "remove_at xs i = take i xs @ drop (Suc i) xs"

definition step :: "world \<Rightarrow> event \<Rightarrow> world" where
  "step w ev =
     (case ev of
        Api a \<Rightarrow> api_call w a
      | Session_settled out \<Rightarrow>
          if negotiating w then run_then (w\<lparr>negotiating := False\<rparr>) out else w
      | Read_loadend \<Rightarrow>
          (case Steamer_onloadend (steamer (upload w)) of
             (st, None) \<Rightarrow> w\<lparr>upload := (upload w)\<lparr>steamer := st\<rparr>\<rparr>
           | (st, Some (offset, chunk)) \<Rightarrow>
               (case doUpload_chunk (w\<lparr>upload := (upload w)\<lparr>steamer := st\<rparr>\<rparr>) offset
                       (Some chunk) of
                  Inl e \<Rightarrow> doUpload_catch (w\<lparr>upload := (upload w)\<lparr>steamer := st\<rparr>\<rparr>) e
                | Inr w' \<Rightarrow> w'))
      | Read_error loaded \<Rightarrow>
          (case Steamer_onerror (steamer (upload w)) loaded of
             (st, None) \<Rightarrow> w\<lparr>upload := (upload w)\<lparr>steamer := st\<rparr>\<rparr>
           | (st, Some offset) \<Rightarrow>
               doUpload_catch (w\<lparr>upload := (upload w)\<lparr>steamer := st\<rparr>\<rparr>) ReaderError)
      | Fetch_settled i out \<Rightarrow>
          (case at_index (in_flight w) i of
             None \<Rightarrow> w
           | Some (offset, rq) \<Rightarrow>
               (let w' = w\<lparr>in_flight := remove_at (in_flight w) i\<rparr> in
                case out of
                  Fetch_failed \<Rightarrow> doUpload_catch w' NetworkError
                | Fetch_response r \<Rightarrow>
                    (case uploadChunk_then r of
                       Inl e \<Rightarrow> doUpload_catch w' e
                     | Inr res \<Rightarrow> doUpload_then w' offset res))))"

text \<open>A run of the page: the events in the order in which they happen.\<close>

definition run_events :: "world \<Rightarrow> event list \<Rightarrow> world" where
  "run_events w evs = foldl step w evs"

section \<open>Vocabulary of the properties\<close>

text \<open>
  \<open>run\<close> followed by a list of events; the error is what \<open>run\<close> throws.
\<close>

definition run_page :: "bool \<Rightarrow> bool \<Rightarrow> File option \<Rightarrow> event list \<Rightarrow> jserror + world" where
  "run_page has_file_api has_fetch f evs =
     (case run has_file_api has_fetch f of
        Inl e \<Rightarrow> Inl e
      | Inr w \<Rightarrow> Inr (run_events w evs))"

text \<open>The session request succeeds with the session URI \<open>uri\<close>.\<close>

definition session_ok :: "string \<Rightarrow> event" where
  "session_ok uri = Session_settled (Session_response 200 (Json_data (Some uri)))"

text \<open>The only chunk request in flight gets a response with this status and header.\<close>

definition respond :: "nat \<Rightarrow> string option \<Rightarrow> event" where
  "respond st h = Fetch_settled 0 (Fetch_response \<lparr>status = st, range_header = h\<rparr>)"

text \<open>A file of \<open>DEFAULT_CHUNK_SIZE + 10\<close> bytes.\<close>

definition example_file :: File where
  "example_file = \<lparr>file_name = ''movie.bin'', file_size = 1048586, file_type = ''video/mp4''\<rparr>"

text \<open>
  The request that \<open>uploadChunk\<close> sends for a range with \<open>*\<close>: no body and no
  content header.
\<close>

definition probe :: "Upload \<Rightarrow> request" where
  "probe u =
     \<lparr>url = sessionUri u, http_method = ''put'', mode = ''cors'',
      headers = [(''Access-Control-Allow-Origin'', ''*'')], body = None\<rparr>"

text \<open>
  What the transfer loop leaves alone in the Upload: every field but the steamer, the
  error queue, the last error and the calls.
\<close>

definition kept :: "Upload \<Rightarrow> Upload \<Rightarrow> bool" where
  "kept u u' \<longleftrightarrow>
     eventQueue_onprogress u' = eventQueue_onprogress u \<and>
     eventQueue_ondone u' = eventQueue_ondone u \<and>
     eventQueue_oncancel u' = eventQueue_oncancel u \<and>
     eventQueue_onpause u' = eventQueue_onpause u \<and>
     upload_size u' = upload_size u \<and> contentType u' = contentType u \<and>
     sessionUri u' = sessionUri u \<and> state_progress u' = state_progress u \<and>
     state_done u' = state_done u \<and> state_cancel u' = state_cancel u \<and>
     state_pause u' = state_pause u \<and> onprogress u' = onprogress u \<and>
     onerror u' = onerror u \<and> ondone u' = ondone u \<and> oncancel u' = oncancel u \<and>
     onpause u' = onpause u"

text \<open>The queues of the kinds done, cancel and pause hold at most one entry.\<close>

definition single_slot :: "Upload \<Rightarrow> bool" where
  "single_slot u \<longleftrightarrow>
     length (eventQueue_ondone u) \<le> 1 \<and> length (eventQueue_oncancel u) \<le> 1 \<and>
     length (eventQueue_onpause u) \<le> 1"

text \<open>
  From \<open>u\<close> to \<open>u'\<close> the done and cancel flags are not cleared and the bound
  on the three queues is kept.
\<close>

definition advances :: "Upload \<Rightarrow> Upload \<Rightarrow> bool" where
  "advances u u' \<longleftrightarrow>
     (state_done u \<longrightarrow> state_done u') \<and> (state_cancel u \<longrightarrow> state_cancel u') \<and>
     (single_slot u \<longrightarrow> single_slot u')"

text \<open>
  The five kinds side by side: the queue of a kind (its entries as arguments of the
  listener), the listener of a kind, and the setter that attaches one.
\<close>

definition queue :: "kind \<Rightarrow> Upload \<Rightarrow> arg list" where
  "queue k u =
     (case k of
        Onprogress \<Rightarrow> map Arg_offset (eventQueue_onprogress u)
      | Onerror \<Rightarrow> map Arg_error (eventQueue_onerror u)
      | Ondone \<Rightarrow> map Arg_bool (eventQueue_ondone u)
      | Oncancel \<Rightarrow> map Arg_bool (eventQueue_oncancel u)
      | Onpause \<Rightarrow> map Arg_bool (eventQueue_onpause u))"

definition listener :: "kind \<Rightarrow> Upload \<Rightarrow> nat option" where
  "listener k u =
     (case k of
        Onprogress \<Rightarrow> onprogress u
      | Onerror \<Rightarrow> onerror u
      | Ondone \<Rightarrow> ondone u
      | Oncancel \<Rightarrow> oncancel u
      | Onpause \<Rightarrow> onpause u)"

definition listen :: "kind \<Rightarrow> Upload \<Rightarrow> nat \<Rightarrow> Upload" where
  "listen k u cb =
     (case k of
        Onprogress \<Rightarrow> set_onprogress u cb
      | Onerror \<Rightarrow> set_onerror u cb
      | Ondone \<Rightarrow> set_ondone u cb
      | Oncancel \<Rightarrow> set_oncancel u cb
      | Onpause \<Rightarrow> set_onpause u cb)"

text \<open>
  The blob that \<open>next(offset)\<close> hands to the reader, for an offset other than the
  resume marker: its first byte and its length.
\<close>

definition next_blob :: "Steamer \<Rightarrow> offset \<Rightarrow> int \<times> int" where
  "next_blob st offset =
     (let offset' = (case offset of Offset n \<Rightarrow> if n \<noteq> 0 then n else progress st
                                  | _ \<Rightarrow> progress st);
          limit = offset' + chunkSize st;
          limit = (if limit \<le> int (file_size (steamer_file st)) then limit
                   else int (file_size (steamer_file st)))
      in slice (int (file_size (steamer_file st))) offset' limit)"

text \<open>
  The first byte of the range that \<open>doUpload\<close> announces for a chunk read at an
  offset: the offset itself when it is a number other than 0, else 0.
\<close>

definition start_of :: "offset \<Rightarrow> int" where
  "start_of offset = (case offset of Offset n \<Rightarrow> n | _ \<Rightarrow> 0)"

text \<open>
  The request that \<open>uploadChunk\<close> sends for the chunk \<open>c\<close> announced from the
  byte \<open>n\<close>.
\<close>

definition chunk_request :: "Upload \<Rightarrow> int \<Rightarrow> chunk \<Rightarrow> request" where
  "chunk_request u n c =
     \<lparr>url = sessionUri u, http_method = ''put'', mode = ''cors'',
      headers = [(''Access-Control-Allow-Origin'', ''*''),
                 (''Content-Length'', to_string (chunk_size c)),
                 (''Content-Type'', contentType u),
                 (''Content-Range'',
                    ''bytes '' @ to_string n @ ''-'' @ to_string (n + chunk_size c - 1) @
                    ''/'' @ to_string (upload_size u))],
      body = Some c\<rparr>"



text \<open>The byte offsets that the progress listeners were called with, in order.\<close>

fun progress_signals :: "call list \<Rightarrow> int list" where
  "progress_signals [] = []"
| "progress_signals (Call k cb a # cs) =
     (case (k, a) of
        (Onprogress, Some (Arg_offset (Offset n))) \<Rightarrow> n # progress_signals cs
      | _ \<Rightarrow> progress_signals cs)"

text \<open>The errors that the error listeners were called with, in order.\<close>

fun error_signals :: "call list \<Rightarrow> jserror list" where
  "error_signals [] = []"
| "error_signals (Call k cb a # cs) =
     (case (k, a) of
        (Onerror, Some (Arg_error e)) \<Rightarrow> e # error_signals cs
      | _ \<Rightarrow> error_signals cs)"



text \<open>A status that is none of 200, 201 and 308.\<close>

definition other_status :: "nat \<Rightarrow> bool" where
  "other_status st \<longleftrightarrow> st \<noteq> 200 \<and> st \<noteq> 201 \<and> st \<noteq> 308"








section \<open>Lemmas on the Upload and the loop\<close>

lemma clearEventQueue_eq: "clearEventQueue q ev = ([], map ev q)"
  by (induction q) auto

lemma set_onprogress_eq:
  "set_onprogress u cb = u\<lparr>onprogress := Some cb, eventQueue_onprogress := [],
     calls := calls u @ map (\<lambda>x. Call Onprogress cb (Some (Arg_offset x))) (eventQueue_onprogress u)\<rparr>"
  by (simp add: set_onprogress_def clearEventQueue_eq)

lemma set_onerror_eq:
  "set_onerror u cb = u\<lparr>onerror := Some cb, eventQueue_onerror := [],
     calls := calls u @ map (\<lambda>x. Call Onerror cb (Some (Arg_error x))) (eventQueue_onerror u)\<rparr>"
  by (simp add: set_onerror_def clearEventQueue_eq)

lemma set_ondone_eq:
  "set_ondone u cb = u\<lparr>ondone := Some cb, eventQueue_ondone := [],
     calls := calls u @ map (\<lambda>x. Call Ondone cb (Some (Arg_bool x))) (eventQueue_ondone u)\<rparr>"
  by (simp add: set_ondone_def clearEventQueue_eq)

lemma set_oncancel_eq:
  "set_oncancel u cb = u\<lparr>oncancel := Some cb, eventQueue_oncancel := [],
     calls := calls u @ map (\<lambda>x. Call Oncancel cb (Some (Arg_bool x))) (eventQueue_oncancel u)\<rparr>"
  by (simp add: set_oncancel_def clearEventQueue_eq)

lemma set_onpause_eq:
  "set_onpause u cb = u\<lparr>onpause := Some cb, eventQueue_onpause := [],
     calls := calls u @ map (\<lambda>x. Call Onpause cb (Some (Arg_bool x))) (eventQueue_onpause u)\<rparr>"
  by (simp add: set_onpause_def clearEventQueue_eq)

lemmas listen_eqs = set_onprogress_eq set_onerror_eq set_ondone_eq set_oncancel_eq set_onpause_eq

lemma doUpload_RESUME:
  "doUpload w RESUME_OFFSET =
     w\<lparr>in_flight := in_flight w @ [(RESUME_OFFSET, probe (upload w))],
       requests := requests w @ [probe (upload w)]\<rparr>"
  by (simp add: doUpload.simps Steamer_next_def doUpload_chunk_def content_range_def
      uploadChunk_def probe_def)

lemma Steamer_next_RESUME [simp]: "Steamer_next st RESUME_OFFSET = (st, Fulfilled_undefined)"
  by (simp add: Steamer_next_def)

lemma doUpload_catch_eq:
  "doUpload_catch w e =
     (if currentState (state_set_error (upload w) e) = INPROGRESS
      then doUpload (w\<lparr>upload := state_set_error (upload w) e\<rparr>) RESUME_OFFSET
      else w\<lparr>upload := state_set_error (upload w) e\<rparr>)"
  by (simp add: doUpload_catch.simps Let_def)

lemma steamer_set_error [simp]: "steamer (state_set_error u e) = steamer u"
  by (simp add: state_set_error_def split: option.splits)

lemma currentState_set_error [simp]:
  "currentState (state_set_error u e) = currentState u"
  by (simp add: state_set_error_def currentState_def split: option.splits)

lemma kept_set_error: "kept u (state_set_error u e)"
  by (simp add: kept_def state_set_error_def split: option.splits)

lemma kept_catch: "kept (upload w) (upload (doUpload_catch w e))"
  using kept_set_error [of "upload w" e]
  by (simp add: doUpload_catch_eq doUpload_RESUME kept_def)

lemma kept_doUpload: "kept (upload w) (upload (doUpload w off))"
proof (cases "off = RESUME_OFFSET")
  case True
  then show ?thesis by (simp add: doUpload_RESUME kept_def)
next
  case False
  obtain st p where sn: "Steamer_next (steamer (upload w)) off = (st, p)"
    by (cases "Steamer_next (steamer (upload w)) off")
  show ?thesis
  proof (cases p)
    case Fulfilled_undefined
    with sn False show ?thesis
      by (auto simp: Steamer_next_def Let_def split: reader.splits)
  next
    case Pending
    with sn show ?thesis by (simp add: doUpload.simps kept_def)
  next
    case (Rejected e)
    with sn show ?thesis
      using kept_catch [of "w\<lparr>upload := (upload w)\<lparr>steamer := st\<rparr>\<rparr>" e]
      by (simp add: doUpload.simps kept_def)
  qed
qed

lemma advances_refl [simp]: "advances u u"
  by (simp add: advances_def)

lemma advances_trans: "advances u u' \<Longrightarrow> advances u' u'' \<Longrightarrow> advances u u''"
  by (simp add: advances_def)

lemma kept_advances: "kept u u' \<Longrightarrow> advances u u'"
  by (simp add: kept_def advances_def single_slot_def)

lemma length_set_slot0_le: "length (set_slot0 xs v) \<le> Suc 0 \<longleftrightarrow> length xs \<le> Suc 0"
  by (cases xs) auto

lemma advances_steamer [simp]: "advances u (u\<lparr>steamer := st\<rparr>)"
  by (simp add: advances_def single_slot_def)

lemma advances_sessionUri [simp]: "advances u (u\<lparr>sessionUri := x\<rparr>)"
  by (simp add: advances_def single_slot_def)

lemma advances_set_progress [simp]: "advances u (state_set_progress u off)"
  by (simp add: advances_def single_slot_def state_set_progress_def split: option.splits)

lemma advances_set_error [simp]: "advances u (state_set_error u e)"
  by (simp add: kept_advances kept_set_error)

lemma advances_set_done [simp]: "advances u (state_set_done u d)"
  by (simp add: advances_def single_slot_def state_set_done_def Let_def length_set_slot0_le
      split: option.splits)

lemma advances_set_cancel [simp]: "advances u (state_set_cancel u c)"
  by (simp add: advances_def single_slot_def state_set_cancel_def Let_def length_set_slot0_le
      split: option.splits)

lemma advances_set_pause [simp]: "advances u (state_set_pause u p)"
  by (simp add: advances_def single_slot_def state_set_pause_def Let_def length_set_slot0_le
      split: option.splits)

lemma advances_listen [simp]:
  "advances u (set_onprogress u cb)" "advances u (set_onerror u cb)"
  "advances u (set_ondone u cb)" "advances u (set_oncancel u cb)"
  "advances u (set_onpause u cb)"
  by (simp_all add: listen_eqs advances_def single_slot_def)

lemma advances_doUpload: "advances u (upload w) \<Longrightarrow> advances u (upload (doUpload w off))"
  by (blast intro: advances_trans kept_advances kept_doUpload)

lemma advances_catch: "advances u (upload w) \<Longrightarrow> advances u (upload (doUpload_catch w e))"
  by (blast intro: advances_trans kept_advances kept_catch)

lemma advances_chunk:
  "doUpload_chunk w off c = Inr w' \<Longrightarrow> upload w' = upload w"
  by (auto simp: doUpload_chunk_def split: sum.splits)

lemma advances_then: "advances (upload w) (upload (doUpload_then w off res))"
  by (auto simp: doUpload_then_def Upload_done_def split: result.splits
      intro!: advances_doUpload advances_catch)

lemma advances_resume: "advances (upload w) (upload (Upload_resume w))"
  by (simp add: Upload_resume_def advances_doUpload)

lemma advances_api: "advances (upload w) (upload (api_call w a))"
  by (cases a) (simp_all add: api_call_def Upload_cancel_def Upload_pause_def Upload_done_def
      advances_resume)

lemma advances_run_then: "advances (upload w) (upload (run_then w out))"
  by (auto simp: run_then_def split: sum.splits intro!: advances_doUpload)

lemma advances_step: "advances (upload w) (upload (step w ev))"
proof (cases ev)
  case (Api a)
  then show ?thesis by (simp add: step_def advances_api)
next
  case (Session_settled out)
  then show ?thesis
    using advances_run_then [of "w\<lparr>negotiating := False\<rparr>" out] by (simp add: step_def)
next
  case Read_loadend
  then show ?thesis
    by (auto simp: step_def split: prod.splits option.splits sum.splits
        dest!: advances_chunk intro!: advances_catch)
next
  case (Read_error n)
  then show ?thesis
    by (auto simp: step_def split: prod.splits option.splits intro!: advances_catch)
next
  case (Fetch_settled i out)
  then show ?thesis
    using advances_then [of "w\<lparr>in_flight := remove_at (in_flight w) i\<rparr>"]
    by (auto simp: step_def Let_def split: option.splits fetch_outcome.splits sum.splits
        intro!: advances_catch)
qed

lemma advances_run_events: "advances (upload w) (upload (run_events w evs))"
proof (induction evs arbitrary: w)
  case Nil
  then show ?case by (simp add: run_events_def)
next
  case (Cons ev evs)
  have "advances (upload w) (upload (step w ev))" by (rule advances_step)
  moreover have "advances (upload (step w ev)) (upload (run_events (step w ev) evs))"
    by (rule Cons.IH)
  ultimately show ?case
    by (simp add: run_events_def advances_trans)
qed



section \<open>Pausing twice\<close>

text \<open>
  C6. With a pause listener attached, \<open>pause()\<close> should signal only when the Upload
  goes from not paused to paused. The setter does not look at the flag it overwrites:
  every \<open>pause()\<close> calls the listener, also on an Upload that is already paused.
\<close>

theorem C6_pause_signals_every_time:
  "onpause u = Some cb \<Longrightarrow>
     calls (Upload_pause u) = calls u @ [Call Onpause cb None] \<and> state_pause (Upload_pause u)"
  by (simp add: Upload_pause_def state_set_pause_def)

theorem C6_pause_signals_every_time_witness:
  "\<exists>w. run_page True True (Some example_file) [Api (Listen_pause 1), Api Pause] = Inr w \<and>
       state_pause (upload w) \<and> onpause (upload w) = Some 1 \<and>
       calls (upload w) = [Call Onpause 1 None] \<and>
       calls (Upload_pause (upload w)) = [Call Onpause 1 None, Call Onpause 1 None]"
proof -
  let ?u = "new_Upload 1048586 ''video/mp4''
     \<lparr>steamer_file = example_file, chunkSize = DEFAULT_CHUNK_SIZE, progress = 0, reader = Idle\<rparr>"
  let ?w = "\<lparr>upload = Upload_pause (set_onpause ?u 1), negotiating = True, in_flight = [],
     requests = []\<rparr>"
  have run: "run_page True True (Some example_file) [Api (Listen_pause 1), Api Pause] = Inr ?w"
    by (simp add: run_page_def run_def new_Steamer_def example_file_def run_events_def
        step_def api_call_def)
  have u: "onpause (upload ?w) = Some 1"
    by (simp add: set_onpause_eq Upload_pause_def state_set_pause_def new_Upload_def)
  have c: "calls (upload ?w) = [Call Onpause 1 None]"
    by (simp add: set_onpause_eq Upload_pause_def state_set_pause_def new_Upload_def)
  have p: "state_pause (upload ?w)"
    by (simp add: set_onpause_eq Upload_pause_def state_set_pause_def new_Upload_def)
  from C6_pause_signals_every_time [OF u] have
    "calls (Upload_pause (upload ?w)) = calls (upload ?w) @ [Call Onpause 1 None]"
    by blast
  with c have "calls (Upload_pause (upload ?w)) = [Call Onpause 1 None, Call Onpause 1 None]"
    by simp
  with run u c p show ?thesis
    by blast
qed

section \<open>Listeners and their queues\<close>

lemma listen_replays:
  "calls (listen k u cb) = calls u @ map (\<lambda>a. Call k cb (Some a)) (queue k u)"
  by (cases k) (simp_all add: listen_def queue_def listen_eqs comp_def)

lemma listen_empties: "queue k (listen k u cb) = []"
  by (cases k) (simp_all add: listen_def queue_def listen_eqs)

lemma listen_listener: "listener k (listen k u cb) = Some cb"
  by (cases k) (simp_all add: listen_def listener_def listen_eqs)

lemma listen_other: "k' \<noteq> k \<Longrightarrow> queue k' (listen k u cb) = queue k' u"
  by (cases k; cases k') (simp_all add: listen_def queue_def listen_eqs)

lemma listen_twice: "calls (listen k (listen k u cb) cb') = calls (listen k u cb)"
  by (simp add: listen_replays [of k "listen k u cb"] listen_empties)

lemma progress_direct:
  "onprogress u = Some cb \<Longrightarrow> truthy off \<Longrightarrow> off \<noteq> RESUME_OFFSET \<Longrightarrow>
     calls (state_set_progress u off) = calls u @ [Call Onprogress cb (Some (Arg_offset off))] \<and>
     eventQueue_onprogress (state_set_progress u off) = eventQueue_onprogress u"
  by (simp add: state_set_progress_def)

lemma progress_buffered:
  "onprogress u = None \<Longrightarrow> truthy off \<Longrightarrow> off \<noteq> RESUME_OFFSET \<Longrightarrow>
     state_set_progress u off = u\<lparr>eventQueue_onprogress := eventQueue_onprogress u @ [off]\<rparr>"
  by (simp add: state_set_progress_def)

lemma error_direct:
  "onerror u = Some cb \<Longrightarrow>
     calls (state_set_error u e) = calls u @ [Call Onerror cb (Some (Arg_error e))] \<and>
     eventQueue_onerror (state_set_error u e) = eventQueue_onerror u"
  by (simp add: state_set_error_def)

lemma done_direct:
  "ondone u = Some cb \<Longrightarrow>
     calls (Upload_done u) = calls u @ [Call Ondone cb None] \<and>
     eventQueue_ondone (Upload_done u) = eventQueue_ondone u"
  by (simp add: Upload_done_def state_set_done_def)

lemma cancel_direct:
  "oncancel u = Some cb \<Longrightarrow>
     calls (Upload_cancel u) = calls u @ [Call Oncancel cb None] \<and>
     eventQueue_oncancel (Upload_cancel u) = eventQueue_oncancel u"
  by (simp add: Upload_cancel_def state_set_cancel_def)

lemma pause_direct:
  "onpause u = Some cb \<Longrightarrow>
     calls (Upload_pause u) = calls u @ [Call Onpause cb None] \<and>
     eventQueue_onpause (Upload_pause u) = eventQueue_onpause u"
  by (simp add: Upload_pause_def state_set_pause_def)

lemma foldl_progress_buffered:
  assumes "onprogress u = None"
  shows "foldl state_set_progress u os =
     u\<lparr>eventQueue_onprogress := eventQueue_onprogress u @
          filter (\<lambda>off. truthy off \<and> off \<noteq> RESUME_OFFSET) os\<rparr>"
  using assms
proof (induction os arbitrary: u)
  case Nil
  then show ?case by simp
next
  case (Cons a os)
  have "onprogress (state_set_progress u a) = None"
    using Cons.prems by (simp add: state_set_progress_def)
  from Cons.IH [OF this] Cons.prems show ?case
    by (simp add: state_set_progress_def)
qed

lemma foldl_error_buffered:
  assumes "onerror u = None"
  shows "foldl state_set_error u es = u\<lparr>eventQueue_onerror := eventQueue_onerror u @ es\<rparr>"
  using assms
proof (induction es arbitrary: u)
  case Nil
  then show ?case by simp
next
  case (Cons a es)
  have "onerror (state_set_error u a) = None"
    using Cons.prems by (simp add: state_set_error_def)
  from Cons.IH [OF this] Cons.prems show ?case
    by (simp add: state_set_error_def)
qed

lemma done_once:
  assumes "ondone u = None" and "length (eventQueue_ondone u) \<le> 1"
  shows "Upload_done u = u\<lparr>state_done := True, eventQueue_ondone := [True]\<rparr>"
  using assms by (cases "eventQueue_ondone u") (simp_all add: Upload_done_def state_set_done_def)

lemma done_buffered:
  assumes "ondone u = None" and "length (eventQueue_ondone u) \<le> 1" and "0 < n"
  shows "(Upload_done ^^ n) u = u\<lparr>state_done := True, eventQueue_ondone := [True]\<rparr>"
  using assms
proof (induction n)
  case 0
  then show ?case by simp
next
  case (Suc n)
  show ?case
  proof (cases n)
    case 0
    then show ?thesis using done_once [OF Suc.prems(1,2)] by simp
  next
    case (Suc k)
    with Suc.IH Suc.prems have "(Upload_done ^^ n) u =
        u\<lparr>state_done := True, eventQueue_ondone := [True]\<rparr>"
      by simp
    then show ?thesis
      using Suc.prems(1) by (simp add: done_once)
  qed
qed

lemma cancel_once:
  assumes "oncancel u = None" and "length (eventQueue_oncancel u) \<le> 1"
  shows "Upload_cancel u = u\<lparr>state_cancel := True, eventQueue_oncancel := [True]\<rparr>"
  using assms
  by (cases "eventQueue_oncancel u") (simp_all add: Upload_cancel_def state_set_cancel_def)

lemma cancel_buffered:
  assumes "oncancel u = None" and "length (eventQueue_oncancel u) \<le> 1" and "0 < n"
  shows "(Upload_cancel ^^ n) u = u\<lparr>state_cancel := True, eventQueue_oncancel := [True]\<rparr>"
  using assms
proof (induction n)
  case 0
  then show ?case by simp
next
  case (Suc n)
  show ?case
  proof (cases n)
    case 0
    then show ?thesis using cancel_once [OF Suc.prems(1,2)] by simp
  next
    case (Suc k)
    with Suc.IH Suc.prems have "(Upload_cancel ^^ n) u =
        u\<lparr>state_cancel := True, eventQueue_oncancel := [True]\<rparr>"
      by simp
    then show ?thesis
      using Suc.prems(1) by (simp add: cancel_once)
  qed
qed

lemma pause_buffered:
  assumes "onpause u = None" and "length (eventQueue_onpause u) \<le> 1" and "ps \<noteq> []"
  shows "foldl state_set_pause u ps =
     u\<lparr>state_pause := last ps, eventQueue_onpause := [last ps]\<rparr>"
  using assms
proof (induction ps arbitrary: u)
  case Nil
  then show ?case by simp
next
  case (Cons p ps)
  have one: "state_set_pause u p = u\<lparr>state_pause := p, eventQueue_onpause := [p]\<rparr>"
    using Cons.prems by (cases "eventQueue_onpause u") (simp_all add: state_set_pause_def)
  show ?case
  proof (cases ps)
    case Nil
    then show ?thesis using one by simp
  next
    case (Cons q qs)
    have "foldl state_set_pause (state_set_pause u p) ps =
        (state_set_pause u p)\<lparr>state_pause := last ps, eventQueue_onpause := [last ps]\<rparr>"
      using Cons.prems Cons by (intro Cons.IH) (simp_all add: one)
    then show ?thesis
      using Cons by (simp add: one)
  qed
qed

text \<open>
  C7. Attaching a listener for a kind calls it at once with every entry of that kind's
  queue, first in first out, and empties the queue, so each entry is delivered once and
  a listener attached later gets nothing of it; the queues of the other kinds are not
  touched. While a listener is attached, an event of its kind calls it directly and
  leaves the queue alone.

  What the queue holds of the events before the listener: for progress and error,
  every event, in order (a progress event is an offset that is truthy and not the
  resume marker), so they are all delivered; three progress events are delivered as
  these three. For done and cancel, one entry \<open>true\<close> however often \<open>done()\<close> or
  \<open>cancel()\<close> was called; for pause, only the flag written last by \<open>pause()\<close> or
  \<open>resume()\<close>: the listener attached afterwards is called once, with that value.
\<close>

theorem C7_listener_replay:
  "calls (listen k u cb) = calls u @ map (\<lambda>a. Call k cb (Some a)) (queue k u) \<and>
   queue k (listen k u cb) = [] \<and>
   listener k (listen k u cb) = Some cb \<and>
   calls (listen k (listen k u cb) cb') = calls (listen k u cb) \<and>
   (k' \<noteq> k \<longrightarrow> queue k' (listen k u cb) = queue k' u) \<and>
   (onprogress v = Some l1 \<and> truthy off \<and> off \<noteq> RESUME_OFFSET \<longrightarrow>
      calls (state_set_progress v off) = calls v @ [Call Onprogress l1 (Some (Arg_offset off))] \<and>
      eventQueue_onprogress (state_set_progress v off) = eventQueue_onprogress v) \<and>
   (onerror v = Some l2 \<longrightarrow>
      calls (state_set_error v e) = calls v @ [Call Onerror l2 (Some (Arg_error e))] \<and>
      eventQueue_onerror (state_set_error v e) = eventQueue_onerror v) \<and>
   (ondone v = Some l3 \<longrightarrow>
      calls (Upload_done v) = calls v @ [Call Ondone l3 None] \<and>
      eventQueue_ondone (Upload_done v) = eventQueue_ondone v) \<and>
   (oncancel v = Some l4 \<longrightarrow>
      calls (Upload_cancel v) = calls v @ [Call Oncancel l4 None] \<and>
      eventQueue_oncancel (Upload_cancel v) = eventQueue_oncancel v) \<and>
   (onpause v = Some l5 \<longrightarrow>
      calls (Upload_pause v) = calls v @ [Call Onpause l5 None] \<and>
      eventQueue_onpause (Upload_pause v) = eventQueue_onpause v) \<and>
   (onprogress u0 = None \<and> eventQueue_onprogress u0 = [] \<and>
    truthy o1 \<and> o1 \<noteq> RESUME_OFFSET \<and> truthy o2 \<and> o2 \<noteq> RESUME_OFFSET \<and>
    truthy o3 \<and> o3 \<noteq> RESUME_OFFSET \<longrightarrow>
      calls (listen Onprogress
               (state_set_progress (state_set_progress (state_set_progress u0 o1) o2) o3) cb) =
        calls u0 @ [Call Onprogress cb (Some (Arg_offset o1)),
                    Call Onprogress cb (Some (Arg_offset o2)),
                    Call Onprogress cb (Some (Arg_offset o3))]) \<and>
   (onprogress u0 = None \<longrightarrow>
      calls (listen Onprogress (foldl state_set_progress u0 os) cb) =
        calls u0 @ map (\<lambda>off. Call Onprogress cb (Some (Arg_offset off)))
          (eventQueue_onprogress u0 @ filter (\<lambda>off. truthy off \<and> off \<noteq> RESUME_OFFSET) os)) \<and>
   (onerror u0 = None \<longrightarrow>
      calls (listen Onerror (foldl state_set_error u0 es) cb) =
        calls u0 @ map (\<lambda>x. Call Onerror cb (Some (Arg_error x))) (eventQueue_onerror u0 @ es)) \<and>
   (ondone u0 = None \<and> length (eventQueue_ondone u0) \<le> 1 \<and> 0 < n \<longrightarrow>
      calls (listen Ondone ((Upload_done ^^ n) u0) cb) =
        calls u0 @ [Call Ondone cb (Some (Arg_bool True))]) \<and>
   (oncancel u0 = None \<and> length (eventQueue_oncancel u0) \<le> 1 \<and> 0 < n \<longrightarrow>
      calls (listen Oncancel ((Upload_cancel ^^ n) u0) cb) =
        calls u0 @ [Call Oncancel cb (Some (Arg_bool True))]) \<and>
   (onpause u0 = None \<and> length (eventQueue_onpause u0) \<le> 1 \<and> ps \<noteq> [] \<longrightarrow>
      calls (listen Onpause (foldl state_set_pause u0 ps) cb) =
        calls u0 @ [Call Onpause cb (Some (Arg_bool (last ps)))])"
proof -
  have three: "calls (listen Onprogress
               (state_set_progress (state_set_progress (state_set_progress u0 o1) o2) o3) cb) =
        calls u0 @ [Call Onprogress cb (Some (Arg_offset o1)),
                    Call Onprogress cb (Some (Arg_offset o2)),
                    Call Onprogress cb (Some (Arg_offset o3))]"
    if "onprogress u0 = None" "eventQueue_onprogress u0 = []"
      "truthy o1" "o1 \<noteq> RESUME_OFFSET" "truthy o2" "o2 \<noteq> RESUME_OFFSET"
      "truthy o3" "o3 \<noteq> RESUME_OFFSET"
    using that by (simp add: listen_replays queue_def progress_buffered)
  have p: "calls (listen Onprogress (foldl state_set_progress u0 os) cb) =
        calls u0 @ map (\<lambda>off. Call Onprogress cb (Some (Arg_offset off)))
          (eventQueue_onprogress u0 @ filter (\<lambda>off. truthy off \<and> off \<noteq> RESUME_OFFSET) os)"
    if "onprogress u0 = None"
    by (simp add: foldl_progress_buffered [OF that] listen_replays queue_def comp_def)
  have e: "calls (listen Onerror (foldl state_set_error u0 es) cb) =
        calls u0 @ map (\<lambda>x. Call Onerror cb (Some (Arg_error x))) (eventQueue_onerror u0 @ es)"
    if "onerror u0 = None"
    by (simp add: foldl_error_buffered [OF that] listen_replays queue_def comp_def)
  have d: "calls (listen Ondone ((Upload_done ^^ n) u0) cb) =
        calls u0 @ [Call Ondone cb (Some (Arg_bool True))]"
    if "ondone u0 = None" "length (eventQueue_ondone u0) \<le> 1" "0 < n"
    by (simp add: done_buffered [OF that] listen_replays queue_def)
  have c: "calls (listen Oncancel ((Upload_cancel ^^ n) u0) cb) =
        calls u0 @ [Call Oncancel cb (Some (Arg_bool True))]"
    if "oncancel u0 = None" "length (eventQueue_oncancel u0) \<le> 1" "0 < n"
    by (simp add: cancel_buffered [OF that] listen_replays queue_def)
  have q: "calls (listen Onpause (foldl state_set_pause u0 ps) cb) =
        calls u0 @ [Call Onpause cb (Some (Arg_bool (last ps)))]"
    if "onpause u0 = None" "length (eventQueue_onpause u0) \<le> 1" "ps \<noteq> []"
    by (simp add: pause_buffered [OF that] listen_replays queue_def)
  show ?thesis
    apply (intro conjI)
    subgoal by (rule listen_replays)
    subgoal by (rule listen_empties)
    subgoal by (rule listen_listener)
    subgoal by (rule listen_twice)
    subgoal using listen_other [of k' k u cb] by blast
    subgoal using progress_direct [of v l1 off] by blast
    subgoal using error_direct [of v l2 e] by blast
    subgoal using done_direct [of v l3] by blast
    subgoal using cancel_direct [of v l4] by blast
    subgoal using pause_direct [of v l5] by blast
    subgoal using three by blast
    subgoal using p by blast
    subgoal using e by blast
    subgoal using d by blast
    subgoal using c by blast
    subgoal using q by blast
    done
qed


text \<open>
  An Upload on which, before any listener, the loop reported the offsets 10, 20, 30
  (and, in a second run, also an absent offset and the resume marker) and two errors,
  and the page called \<open>done()\<close> twice, \<open>cancel()\<close> twice, and \<open>pause()\<close> then
  \<open>resume()\<close>; and an Upload with the five listeners 1 to 5 attached.
\<close>

theorem C7_listener_replay_witness:
  "\<exists>u0 v.
     u0 = new_Upload 100 ''video/mp4''
            \<lparr>steamer_file = example_file, chunkSize = 10, progress = 0, reader = Idle\<rparr> \<and>
     calls (listen Onprogress
        (state_set_progress (state_set_progress (state_set_progress u0
           (Offset 10)) (Offset 20)) (Offset 30)) 1) =
       [Call Onprogress 1 (Some (Arg_offset (Offset 10))),
        Call Onprogress 1 (Some (Arg_offset (Offset 20))),
        Call Onprogress 1 (Some (Arg_offset (Offset 30)))] \<and>
     calls (listen Onprogress (foldl state_set_progress u0
        [Offset 10, Absent, Offset 20, RESUME_OFFSET, Offset 30]) 1) =
       [Call Onprogress 1 (Some (Arg_offset (Offset 10))),
        Call Onprogress 1 (Some (Arg_offset (Offset 20))),
        Call Onprogress 1 (Some (Arg_offset (Offset 30)))] \<and>
     calls (listen Onerror (foldl state_set_error u0 [NetworkError, TypeError]) 1) =
       [Call Onerror 1 (Some (Arg_error NetworkError)),
        Call Onerror 1 (Some (Arg_error TypeError))] \<and>
     calls (listen Ondone ((Upload_done ^^ 2) u0) 1) = [Call Ondone 1 (Some (Arg_bool True))] \<and>
     calls (listen Oncancel ((Upload_cancel ^^ 2) u0) 1) =
       [Call Oncancel 1 (Some (Arg_bool True))] \<and>
     calls (listen Onpause (foldl state_set_pause u0 [True, False]) 1) =
       [Call Onpause 1 (Some (Arg_bool False))] \<and>
     queue Onerror (listen Onprogress (state_set_error u0 NetworkError) 1) =
       [Arg_error NetworkError] \<and>
     v = listen Onpause (listen Oncancel (listen Ondone (listen Onerror
           (listen Onprogress u0 1) 2) 3) 4) 5 \<and>
     calls v = [] \<and>
     calls (listen Onprogress v 6) = [] \<and>
     calls (state_set_progress v (Offset 40)) =
       [Call Onprogress 1 (Some (Arg_offset (Offset 40)))] \<and>
     calls (state_set_error v NetworkError) = [Call Onerror 2 (Some (Arg_error NetworkError))] \<and>
     calls (Upload_done v) = [Call Ondone 3 None] \<and>
     calls (Upload_cancel v) = [Call Oncancel 4 None] \<and>
     calls (Upload_pause v) = [Call Onpause 5 None]"
proof -
  let ?u0 = "new_Upload 100 ''video/mp4''
            \<lparr>steamer_file = example_file, chunkSize = 10, progress = 0, reader = Idle\<rparr>"
  let ?v = "listen Onpause (listen Oncancel (listen Ondone (listen Onerror
           (listen Onprogress ?u0 1) 2) 3) 4) 5"
  have v: "onprogress ?v = Some 1" "onerror ?v = Some 2" "ondone ?v = Some 3"
    "oncancel ?v = Some 4" "onpause ?v = Some 5" "calls ?v = []"
    by (simp_all add: listen_def listen_eqs new_Upload_def)
  have u0: "onprogress ?u0 = None" "eventQueue_onprogress ?u0 = []" "calls ?u0 = []"
    "onerror ?u0 = None" "eventQueue_onerror ?u0 = []"
    "ondone ?u0 = None" "eventQueue_ondone ?u0 = []"
    "oncancel ?u0 = None" "eventQueue_oncancel ?u0 = []"
    "onpause ?u0 = None" "eventQueue_onpause ?u0 = []"
    by (simp_all add: new_Upload_def)
  have e: "queue Onerror (state_set_error ?u0 NetworkError) = [Arg_error NetworkError]"
    by (simp add: queue_def state_set_error_def new_Upload_def)
  note a = C7_listener_replay [where k = Onprogress and u = "state_set_error ?u0 NetworkError"
      and cb = 1 and cb' = 6 and k' = Onerror and v = ?v and ?l1.0 = 1 and off = "Offset 40"
      and ?l2.0 = 2 and e = NetworkError and ?l3.0 = 3 and ?l4.0 = 4 and ?l5.0 = 5
      and ?u0.0 = ?u0 and ?o1.0 = "Offset 10" and ?o2.0 = "Offset 20" and ?o3.0 = "Offset 30"
      and os = "[Offset 10, Absent, Offset 20, RESUME_OFFSET, Offset 30]"
      and es = "[NetworkError, TypeError]" and n = 2 and ps = "[True, False]"]
  note b = C7_listener_replay [where k = Onprogress and u = ?v
      and cb = 6 and cb' = 6 and k' = Onerror and v = ?v and ?l1.0 = 1 and off = "Offset 40"
      and ?l2.0 = 2 and e = NetworkError and ?l3.0 = 3 and ?l4.0 = 4 and ?l5.0 = 5
      and ?u0.0 = ?u0 and ?o1.0 = "Offset 10" and ?o2.0 = "Offset 20" and ?o3.0 = "Offset 30"
      and os = "[]" and es = "[]" and n = 1 and ps = "[True]"]
  have q: "queue Onprogress ?v = []"
    by (simp add: listen_def listen_eqs new_Upload_def queue_def)
  show ?thesis
    using a b v u0 e q by (simp del: foldl.simps funpow.simps)
qed

text \<open>
  Two calls of \<open>cancel()\<close> before the cancel listener is attached: one call of the
  listener, not two. \<open>pause()\<close> and then \<open>resume()\<close> before the pause listener is
  attached: the listener is called once, with \<open>false\<close>.
\<close>

theorem C7_counterexample:
  "(\<exists>w. run_page True True (Some example_file)
          [Api Cancel, Api Cancel, Api (Listen_cancel 1)] = Inr w \<and>
        calls (upload w) = [Call Oncancel 1 (Some (Arg_bool True))]) \<and>
   (\<exists>w. run_page True True (Some example_file)
          [Api Pause, Api Resume, Api (Listen_pause 2)] = Inr w \<and>
        calls (upload w) = [Call Onpause 2 (Some (Arg_bool False))])"
  by (simp add: run_page_def run_def new_Steamer_def run_events_def step_def api_call_def
      Upload_resume_def doUpload_RESUME Upload_pause_def Upload_cancel_def
      state_set_pause_def state_set_cancel_def new_Upload_def listen_eqs)

section \<open>The queues of done, cancel and pause\<close>

lemma set_slot0_single: "length xs \<le> Suc 0 \<Longrightarrow> set_slot0 xs v = [v]"
  by (cases xs) auto

lemma run_single_slot:
  assumes "run has_file_api has_fetch f = Inr w0"
  shows "single_slot (upload (run_events w0 evs))"
proof -
  from assms have "single_slot (upload w0)"
    by (auto simp: run_def new_Upload_def single_slot_def
        split: option.splits sum.splits if_splits)
  with advances_run_events [of w0 evs] show ?thesis
    by (simp add: advances_def)
qed

lemma upload_resume: "upload (Upload_resume w) = state_set_pause (upload w) False"
  by (simp add: Upload_resume_def doUpload_RESUME)

text \<open>
  C10. In every state that the page can reach after \<open>run\<close>, the queues of the kinds
  done, cancel and pause hold at most one entry: without a listener, \<open>done()\<close> and
  \<open>cancel()\<close> leave the queue as \<open>[true]\<close>, \<open>pause()\<close> leaves \<open>[true]\<close> and
  \<open>resume()\<close> leaves \<open>[false]\<close>, whatever was there before, so attaching a listener
  replays at most one entry. A progress event and an error without listener add one
  entry each to their queue.
\<close>

theorem C10_single_slot_buffers:
  assumes "run has_file_api has_fetch f = Inr w0" and "w = run_events w0 evs" and "u = upload w"
  shows "length (eventQueue_ondone u) \<le> 1 \<and> length (eventQueue_oncancel u) \<le> 1 \<and>
     length (eventQueue_onpause u) \<le> 1 \<and>
     (ondone u = None \<longrightarrow> eventQueue_ondone (Upload_done u) = [True]) \<and>
     (oncancel u = None \<longrightarrow> eventQueue_oncancel (Upload_cancel u) = [True]) \<and>
     (onpause u = None \<longrightarrow>
        eventQueue_onpause (Upload_pause u) = [True] \<and>
        eventQueue_onpause (upload (Upload_resume w)) = [False]) \<and>
     length (calls (set_ondone u cb)) \<le> length (calls u) + 1 \<and>
     length (calls (set_oncancel u cb)) \<le> length (calls u) + 1 \<and>
     length (calls (set_onpause u cb)) \<le> length (calls u) + 1 \<and>
     (onprogress u = None \<and> truthy off \<and> off \<noteq> RESUME_OFFSET \<longrightarrow>
        eventQueue_onprogress (state_set_progress u off) = eventQueue_onprogress u @ [off]) \<and>
     (onerror u = None \<longrightarrow>
        eventQueue_onerror (state_set_error u e) = eventQueue_onerror u @ [e])"
proof -
  from assms have s: "single_slot u"
    by (simp add: run_single_slot)
  then have l: "length (eventQueue_ondone u) \<le> Suc 0" "length (eventQueue_oncancel u) \<le> Suc 0"
    "length (eventQueue_onpause u) \<le> Suc 0"
    by (simp_all add: single_slot_def)
  have d: "eventQueue_ondone (Upload_done u) = [True]" if "ondone u = None"
    using that l by (simp add: Upload_done_def state_set_done_def set_slot0_single)
  have c: "eventQueue_oncancel (Upload_cancel u) = [True]" if "oncancel u = None"
    using that l by (simp add: Upload_cancel_def state_set_cancel_def set_slot0_single)
  have p: "eventQueue_onpause (Upload_pause u) = [True]" if "onpause u = None"
    using that l by (simp add: Upload_pause_def state_set_pause_def set_slot0_single)
  have r: "eventQueue_onpause (upload (Upload_resume w)) = [False]" if "onpause u = None"
    using that l assms(3) by (simp add: upload_resume state_set_pause_def set_slot0_single)
  have a: "length (calls (set_ondone u cb)) \<le> length (calls u) + 1"
    "length (calls (set_oncancel u cb)) \<le> length (calls u) + 1"
    "length (calls (set_onpause u cb)) \<le> length (calls u) + 1"
    using l by (simp_all add: listen_eqs)
  have g: "eventQueue_onprogress (state_set_progress u off) = eventQueue_onprogress u @ [off]"
    if "onprogress u = None" "truthy off" "off \<noteq> RESUME_OFFSET"
    using that by (simp add: state_set_progress_def)
  have e: "eventQueue_onerror (state_set_error u e) = eventQueue_onerror u @ [e]"
    if "onerror u = None"
    using that by (simp add: state_set_error_def)
  from l d c p r a g e show ?thesis
    by simp
qed

lemmas eval_defs = run_page_def run_def new_Steamer_def run_events_def step_def api_call_def
  Upload_resume_def doUpload_RESUME probe_def Upload_pause_def Upload_cancel_def Upload_done_def
  state_set_pause_def state_set_cancel_def state_set_done_def state_set_progress_def
  state_set_error_def new_Upload_def listen_eqs

text \<open>
  The page pauses, resumes, pauses, resumes, cancels twice and marks the upload done
  before any listener is attached: one entry in each of the three queues.
\<close>

theorem C10_single_slot_buffers_witness:
  "\<exists>w0 w. run True True (Some example_file) = Inr w0 \<and>
     w = run_events w0 [Api Pause, Api Resume, Api Pause, Api Resume, Api Cancel, Api Cancel,
           Api Mark_done, Api (Set_progress (Offset 5)), Api (Set_progress (Offset 9))] \<and>
     eventQueue_onpause (upload w) = [False] \<and>
     eventQueue_oncancel (upload w) = [True] \<and>
     eventQueue_ondone (upload w) = [True] \<and>
     eventQueue_onprogress (upload w) = [Offset 5, Offset 9] \<and>
     eventQueue_onpause (upload (Upload_resume w)) = [False] \<and>
     eventQueue_onpause (Upload_pause (upload w)) = [True] \<and>
     eventQueue_onprogress (state_set_progress (upload w) (Offset 20)) =
       [Offset 5, Offset 9, Offset 20] \<and>
     calls (set_onpause (upload w) 1) = [Call Onpause 1 (Some (Arg_bool False))]"
proof -
  let ?evs = "[Api Pause, Api Resume, Api Pause, Api Resume, Api Cancel, Api Cancel,
           Api Mark_done, Api (Set_progress (Offset 5)), Api (Set_progress (Offset 9))]"
  obtain w0 where w0: "run True True (Some example_file) = Inr w0"
    by (simp add: run_def new_Steamer_def)
  have q: "eventQueue_onpause (upload (run_events w0 ?evs)) = [False]"
    "eventQueue_oncancel (upload (run_events w0 ?evs)) = [True]"
    "eventQueue_ondone (upload (run_events w0 ?evs)) = [True]"
    "eventQueue_onprogress (upload (run_events w0 ?evs)) = [Offset 5, Offset 9]"
    "onpause (upload (run_events w0 ?evs)) = None"
    "onprogress (upload (run_events w0 ?evs)) = None"
    "calls (upload (run_events w0 ?evs)) = []"
    using w0 by (auto simp: eval_defs)
  from C10_single_slot_buffers [OF w0 refl refl, of ?evs 1 "Offset 20" NetworkError] q
  have "eventQueue_onpause (upload (Upload_resume (run_events w0 ?evs))) = [False]"
    "eventQueue_onpause (Upload_pause (upload (run_events w0 ?evs))) = [True]"
    "eventQueue_onprogress (state_set_progress (upload (run_events w0 ?evs)) (Offset 20)) =
       [Offset 5, Offset 9, Offset 20]"
    by simp_all
  moreover have "calls (set_onpause (upload (run_events w0 ?evs)) 1) =
      [Call Onpause 1 (Some (Arg_bool False))]"
    using q by (simp add: set_onpause_eq)
  ultimately show ?thesis
    using w0 q by blast
qed

section \<open>The chunk source\<close>

text \<open>What \<open>next\<close> reads for a number other than 0, and how the cursor moves.\<close>

lemma Steamer_next_number:
  assumes "reader st = Idle" and "n \<noteq> 0" and "0 \<le> n"
    and "n \<le> int (file_size (steamer_file st))" and "0 \<le> chunkSize st"
  shows "Steamer_next st (Offset n) =
     (st\<lparr>reader := Loading n (min (chunkSize st) (int (file_size (steamer_file st)) - n))
              (Some (Offset n))\<rparr>, Pending)"
  using assms by (auto simp: Steamer_next_def slice_def Let_def min_def max_def)

lemma Steamer_onloadend_cursor:
  "reader st = Loading s l w \<Longrightarrow> progress (fst (Steamer_onloadend st)) = progress st + l"
  by (simp add: Steamer_onloadend_def)

text \<open>
  C8. \<open>next(o)\<close> should read from byte \<open>o\<close> for every number \<open>o\<close>, also for
  \<open>o = 0\<close>. The source takes \<open>offset || this.progress\<close>, and \<open>0\<close> is falsy: on a
  steamer with chunk size 10 whose cursor is at 10 after a first \<open>next()\<close>,
  \<open>next(0)\<close> reads the bytes 10 to 19 and not the bytes 0 to 9, as \<open>next()\<close> does.
\<close>

theorem C8_next_zero_reads_at_cursor:
  "\<exists>st0 st1 st2.
     new_Steamer True (Some example_file) (Some 10) = Inr st0 \<and>
     Steamer_onloadend (fst (Steamer_next st0 Absent)) =
       (st1, Some (Absent, \<lparr>data_start = 0, chunk_size = 10\<rparr>)) \<and>
     progress st1 = 10 \<and>
     Steamer_next st1 (Offset 0) = (st2, Pending) \<and>
     reader st2 = Loading 10 10 (Some (Offset 0)) \<and>
     Steamer_onloadend st2 =
       (st2\<lparr>progress := 20, reader := Idle\<rparr>,
        Some (Offset 0, \<lparr>data_start = 10, chunk_size = 10\<rparr>))"
  by (simp add: new_Steamer_def Steamer_next_def Steamer_onloadend_def slice_def
      example_file_def Let_def)

section \<open>Resuming\<close>

lemma sessionUri_set_pause [simp]: "sessionUri (state_set_pause u p) = sessionUri u"
  by (simp add: state_set_pause_def Let_def split: option.splits)

lemma probe_set_pause [simp]: "probe (state_set_pause u p) = probe u"
  by (simp add: probe_def)

lemma requests_resume: "requests (Upload_resume w) = requests w @ [probe (upload w)]"
  by (simp add: Upload_resume_def doUpload_RESUME probe_def)

lemma in_flight_resume:
  "in_flight (Upload_resume w) = in_flight w @ [(RESUME_OFFSET, probe (upload w))]"
  by (simp add: Upload_resume_def doUpload_RESUME probe_def)

text \<open>
  C5. \<open>resume()\<close> sends one request at once, and it is the probe: \<open>doUpload\<close> gets the
  resume marker, the range is \<open>bytes */<total>\<close>, and \<open>uploadChunk\<close> sends for it a
  request without body and without the headers Content-Length, Content-Type and
  Content-Range. So the request that follows \<open>pause()\<close> and \<open>resume()\<close> is the probe.
\<close>

theorem C5_resume_sends_probe:
  "requests (Upload_resume w) = requests w @ [probe (upload w)] \<and>
   in_flight (Upload_resume w) = in_flight w @ [(RESUME_OFFSET, probe (upload w))] \<and>
   requests (run_events w [Api Pause, Api Resume]) = requests w @ [probe (upload w)] \<and>
   content_range RESUME_OFFSET None (upload_size (upload w)) =
     Inr (''bytes */'' @ to_string (upload_size (upload w))) \<and>
   uploadChunk (sessionUri (upload w)) None (contentType (upload w))
       (''bytes */'' @ to_string (upload_size (upload w))) = Inr (probe (upload w)) \<and>
   body (probe (upload w)) = None \<and>
   map_of (headers (probe (upload w))) ''Content-Length'' = None \<and>
   map_of (headers (probe (upload w))) ''Content-Type'' = None \<and>
   map_of (headers (probe (upload w))) ''Content-Range'' = None"
proof -
  have "requests (run_events w [Api Pause, Api Resume]) = requests w @ [probe (upload w)]"
    by (simp add: run_events_def step_def api_call_def requests_resume Upload_pause_def)
  moreover have "content_range RESUME_OFFSET None (upload_size (upload w)) =
     Inr (''bytes */'' @ to_string (upload_size (upload w)))"
    by (simp add: content_range_def)
  moreover have "uploadChunk (sessionUri (upload w)) None (contentType (upload w))
       (''bytes */'' @ to_string (upload_size (upload w))) = Inr (probe (upload w))"
    by (simp add: uploadChunk_def probe_def)
  ultimately show ?thesis
    by (simp add: requests_resume in_flight_resume) (simp add: probe_def)
qed

section \<open>Lemmas on strings\<close>



lemma digit_char_in: "d < 10 \<Longrightarrow> digit_char d \<in> set ''0123456789''"
  unfolding digit_char_def by (rule nth_mem) simp

lemma show_nat_digits: "set (show_nat n) \<subseteq> set ''0123456789''"
proof (induction n rule: show_nat.induct)
  case (1 n)
  show ?case
  proof (cases "n < 10")
    case True
    then show ?thesis
      using digit_char_in [of n] by (subst show_nat.simps) simp
  next
    case False
    then show ?thesis
      using 1 digit_char_in [of "n mod 10"] by (subst show_nat.simps) simp
  qed
qed


lemma star_not_in_to_string: "CHR ''*'' \<notin> set (to_string i)"
  using show_nat_digits [of "nat i"] show_nat_digits [of "nat (- i)"]
  by (auto simp: to_string_def)











section \<open>Lemmas on the steps of the loop\<close>

lemma to_string_0: "to_string 0 = ''0''"
  by (simp add: to_string_def show_nat.simps digit_char_def)

lemma content_range_chunk:
  "off \<noteq> RESUME_OFFSET \<Longrightarrow>
     content_range off (Some c) sz =
       Inr (''bytes '' @ to_string (start_of off) @ ''-'' @
            to_string (start_of off + chunk_size c - 1) @ ''/'' @ to_string sz)"
  by (cases off) (simp_all add: content_range_def start_of_def to_string_0)

lemma doUpload_chunk_Some:
  "off \<noteq> RESUME_OFFSET \<Longrightarrow>
     doUpload_chunk w off (Some c) =
       Inr (w\<lparr>in_flight := in_flight w @ [(off, chunk_request (upload w) (start_of off) c)],
              requests := requests w @ [chunk_request (upload w) (start_of off) c]\<rparr>)"
  by (simp add: doUpload_chunk_def content_range_chunk uploadChunk_def chunk_request_def
      star_not_in_to_string)

lemma step_Read_loadend:
  assumes "reader (steamer (upload w)) = Loading s l (Some off)" and "off \<noteq> RESUME_OFFSET"
  shows "step w Read_loadend =
     w\<lparr>upload := (upload w)\<lparr>steamer :=
           (steamer (upload w))\<lparr>progress := progress (steamer (upload w)) + l, reader := Idle\<rparr>\<rparr>,
       in_flight := in_flight w @
         [(off, chunk_request (upload w) (start_of off) \<lparr>data_start = s, chunk_size = l\<rparr>)],
       requests := requests w @
         [chunk_request (upload w) (start_of off) \<lparr>data_start = s, chunk_size = l\<rparr>]\<rparr>"
  using assms
  by (simp add: step_def Steamer_onloadend_def doUpload_chunk_Some chunk_request_def)

lemma Steamer_next_Idle:
  assumes "reader st = Idle" and "off \<noteq> RESUME_OFFSET"
  shows "Steamer_next st off =
     (st\<lparr>reader := Loading (fst (next_blob st off)) (snd (next_blob st off)) (Some off)\<rparr>,
      Pending)"
  using assms by (simp add: Steamer_next_def next_blob_def Let_def)

lemma doUpload_Idle:
  assumes "reader (steamer (upload w)) = Idle" and "off \<noteq> RESUME_OFFSET"
  shows "doUpload w off =
     w\<lparr>upload := (upload w)\<lparr>steamer := (steamer (upload w))\<lparr>reader :=
       Loading (fst (next_blob (steamer (upload w)) off))
               (snd (next_blob (steamer (upload w)) off)) (Some off)\<rparr>\<rparr>\<rparr>"
  using assms by (simp add: doUpload.simps Steamer_next_Idle)

lemma step_respond:
  assumes "in_flight w = [(off, rq)]"
  shows "step w (respond st h) =
     (case uploadChunk_then \<lparr>status = st, range_header = h\<rparr> of
        Inl e \<Rightarrow> doUpload_catch (w\<lparr>in_flight := []\<rparr>) e
      | Inr res \<Rightarrow> doUpload_then (w\<lparr>in_flight := []\<rparr>) off res)"
  using assms by (simp add: step_def respond_def remove_at_def Let_def)

lemma steamer_set_progress [simp]: "steamer (state_set_progress u off) = steamer u"
  by (simp add: state_set_progress_def split: option.splits)

lemma currentState_set_progress [simp]:
  "currentState (state_set_progress u off) = currentState u"
  by (simp add: state_set_progress_def currentState_def split: option.splits)

lemma currentState_steamer [simp]: "currentState (u\<lparr>steamer := st\<rparr>) = currentState u"
  by (simp add: currentState_def)





section \<open>Acknowledged chunks and progress signals\<close>






lemma run_True:
  "run True True (Some f) =
     Inr \<lparr>upload = new_Upload (int (file_size f)) (file_type f)
            \<lparr>steamer_file = f, chunkSize = DEFAULT_CHUNK_SIZE, progress = 0, reader = Idle\<rparr>,
          negotiating = True, in_flight = [], requests = []\<rparr>"
  by (simp add: run_def new_Steamer_def)

lemma step_session_ok:
  assumes "negotiating w" and "reader (steamer (upload w)) = Idle"
  shows "step w (session_ok uri) =
     w\<lparr>negotiating := False,
       upload := (upload w)\<lparr>sessionUri := Some uri,
         steamer := (steamer (upload w))\<lparr>reader :=
           Loading (fst (next_blob (steamer (upload w)) Absent))
                   (snd (next_blob (steamer (upload w)) Absent)) (Some Absent)\<rparr>\<rparr>\<rparr>"
proof -
  have "step w (session_ok uri) =
      doUpload (w\<lparr>negotiating := False, upload := (upload w)\<lparr>sessionUri := Some uri\<rparr>\<rparr>) Absent"
    using assms(1) by (simp add: step_def session_ok_def run_then_def getSessionUri_def)
  also have "\<dots> = w\<lparr>negotiating := False,
       upload := (upload w)\<lparr>sessionUri := Some uri,
         steamer := (steamer (upload w))\<lparr>reader :=
           Loading (fst (next_blob (steamer (upload w)) Absent))
                   (snd (next_blob (steamer (upload w)) Absent)) (Some Absent)\<rparr>\<rparr>\<rparr>"
    using assms(2) by (subst doUpload_Idle) simp_all
  finally show ?thesis .
qed







lemma progress_signals_append:
  "progress_signals (xs @ ys) = progress_signals xs @ progress_signals ys"
proof (induction xs)
  case Nil
  then show ?case by simp
next
  case (Cons c cs)
  then show ?case
    by (cases c) (simp split: kind.splits option.splits arg.splits offset.splits)
qed


lemma progress_signals_set_error [simp]:
  "progress_signals (calls (state_set_error u e)) = progress_signals (calls u)"
  by (simp add: state_set_error_def progress_signals_append split: option.splits)

lemma progress_signals_done [simp]:
  "progress_signals (calls (Upload_done u)) = progress_signals (calls u)"
  by (simp add: Upload_done_def state_set_done_def progress_signals_append Let_def
      split: option.splits)

lemma progress_signals_catch [simp]:
  "progress_signals (calls (upload (doUpload_catch w e))) = progress_signals (calls (upload w))"
  by (simp add: doUpload_catch_eq doUpload_RESUME)

lemma progress_signals_doUpload [simp]:
  "progress_signals (calls (upload (doUpload w off))) = progress_signals (calls (upload w))"
proof (cases "off = RESUME_OFFSET")
  case True
  then show ?thesis by (simp add: doUpload_RESUME)
next
  case False
  obtain st p where sn: "Steamer_next (steamer (upload w)) off = (st, p)"
    by (cases "Steamer_next (steamer (upload w)) off")
  show ?thesis
  proof (cases p)
    case Fulfilled_undefined
    with sn False show ?thesis
      by (auto simp: Steamer_next_def Let_def split: reader.splits)
  next
    case Pending
    with sn show ?thesis by (simp add: doUpload.simps)
  next
    case (Rejected e)
    with sn show ?thesis by (simp add: doUpload.simps)
  qed
qed









section \<open>Where the loop resumes after an acknowledgement\<close>

text \<open>
  C1. After a 308 with \<open>Range: bytes 0-n\<close> the next request should start at byte
  \<open>n + 1\<close>. The loop passes \<open>parseInt\<close> of the last byte received to \<open>doUpload\<close>
  as it is: for a file of \<open>DEFAULT_CHUNK_SIZE + 10 = 1048586\<close> bytes whose first chunk,
  the bytes 0 to 1048575, is acknowledged with \<open>Range: bytes 0-1048575\<close>, the second
  request carries the 11 bytes from 1048575 on, with
  \<open>Content-Range: bytes 1048575-1048585/1048586\<close>: the byte 1048575 is sent twice.
\<close>

theorem C1_next_request_starts_at_last_byte_received:
  "\<exists>w. run_page True True (Some example_file)
         [session_ok ''https://storage.example/session'',
          Read_loadend, respond 308 (Some ''bytes 0-1048575''),
          Read_loadend, respond 200 None] = Inr w \<and>
       currentState (upload w) = DONE \<and>
       map (\<lambda>rq. map_of (headers rq) ''Content-Range'') (requests w) =
         [Some ''bytes 0-1048575/1048586'', Some ''bytes 1048575-1048585/1048586''] \<and>
       map body (requests w) =
         [Some \<lparr>data_start = 0, chunk_size = 1048576\<rparr>,
          Some \<lparr>data_start = 1048575, chunk_size = 11\<rparr>]"
  by (simp add: run_page_def run_True run_events_def step_session_ok new_Upload_def
      step_respond step_Read_loadend next_blob_def slice_def DEFAULT_CHUNK_SIZE_def
      example_file_def uploadChunk_then_def parseInt_def is_space_def is_digit_def
      digit_value_def doUpload_then_def currentState_def state_set_progress_def
      doUpload_Idle Upload_done_def state_set_done_def chunk_request_def start_of_def
      to_string_def show_nat.simps digit_char_def Let_def)

section \<open>Failures of chunk requests\<close>

lemma calls_set_error:
  "onerror u = Some cb \<Longrightarrow>
     calls (state_set_error u e) = calls u @ [Call Onerror cb (Some (Arg_error e))]"
  by (simp add: state_set_error_def)

lemma probe_set_error [simp]: "probe (state_set_error u e) = probe u"
  by (simp add: probe_def state_set_error_def split: option.splits)

lemma catch_effect:
  assumes "onerror (upload w) = Some cb"
  shows "calls (upload (doUpload_catch w e)) =
       calls (upload w) @ [Call Onerror cb (Some (Arg_error e))]"
    and "currentState (upload w) = INPROGRESS \<Longrightarrow>
       requests (doUpload_catch w e) = requests w @ [probe (upload w)] \<and>
       in_flight (doUpload_catch w e) = in_flight w @ [(RESUME_OFFSET, probe (upload w))]"
    and "currentState (upload w) \<noteq> INPROGRESS \<Longrightarrow>
       requests (doUpload_catch w e) = requests w \<and>
       in_flight (doUpload_catch w e) = in_flight w"
  using assms
  by (simp_all add: doUpload_catch_eq doUpload_RESUME calls_set_error)



lemma step_respond_done:
  assumes "in_flight w = [(off, rq)]" and "st = 200 \<or> st = 201"
    and "currentState (upload w) = INPROGRESS"
  shows "step w (respond st h) = w\<lparr>in_flight := [], upload := Upload_done (upload w)\<rparr>"
  using assms
  by (auto simp: step_respond uploadChunk_then_def doUpload_then_def)

lemma set_progress_falsy [simp]:
  "state_set_progress u Absent = u" "state_set_progress u RESUME_OFFSET = u"
  by (simp_all add: state_set_progress_def)



lemma other_status_500 [simp]: "other_status 500" "other_status 503"
  by (simp_all add: other_status_def)

lemma error_signals_append:
  "error_signals (xs @ ys) = error_signals xs @ error_signals ys"
proof (induction xs)
  case Nil
  then show ?case by simp
next
  case (Cons c cs)
  then show ?case
    by (cases c) (simp split: kind.splits option.splits arg.splits)
qed

lemma error_signals_set_progress [simp]:
  "error_signals (calls (state_set_progress u off)) = error_signals (calls u)"
  by (simp add: state_set_progress_def error_signals_append split: option.splits)

lemma eventQueue_onerror_set_progress [simp]:
  "eventQueue_onerror (state_set_progress u off) = eventQueue_onerror u"
  by (simp add: state_set_progress_def split: option.splits)

lemma probe_set_progress [simp]: "probe (state_set_progress u off) = probe u"
  by (simp add: probe_def state_set_progress_def split: option.splits)

lemma probe_steamer [simp]: "probe (u\<lparr>steamer := st\<rparr>) = probe u"
  by (simp add: probe_def)













section \<open>\<open>run\<close> and a failed negotiation\<close>



lemma steamer_setters [simp]:
  "steamer (state_set_done u d) = steamer u" "steamer (state_set_cancel u c) = steamer u"
  "steamer (state_set_pause u p) = steamer u"
  "steamer (set_onprogress u cb) = steamer u" "steamer (set_onerror u cb) = steamer u"
  "steamer (set_ondone u cb) = steamer u" "steamer (set_oncancel u cb) = steamer u"
  "steamer (set_onpause u cb) = steamer u"
  by (simp_all add: state_set_done_def state_set_cancel_def state_set_pause_def listen_eqs
      Let_def split: option.splits)







section \<open>Done and Cancelled\<close>

lemma terminal_flags:
  "(currentState u = DONE \<or> currentState u = CANCEL) \<longleftrightarrow> (state_done u \<or> state_cancel u)"
  by (simp add: currentState_def)

lemma terminal_step:
  assumes "currentState (upload w) = DONE \<or> currentState (upload w) = CANCEL"
  shows "currentState (upload (step w ev)) = DONE \<or> currentState (upload (step w ev)) = CANCEL"
  using assms advances_step [of w ev] unfolding terminal_flags advances_def by blast

lemma terminal_resume:
  assumes "currentState (upload w) = DONE \<or> currentState (upload w) = CANCEL"
  shows "currentState (upload (Upload_resume w)) = DONE \<or>
     currentState (upload (Upload_resume w)) = CANCEL"
  using assms advances_resume [of w] unfolding terminal_flags advances_def by blast

lemma settle_not_in_progress:
  assumes "currentState (upload w) \<noteq> INPROGRESS"
  shows "requests (step w (Fetch_settled i out)) = requests w \<and>
     steamer (upload (step w (Fetch_settled i out))) = steamer (upload w) \<and>
     length (in_flight (step w (Fetch_settled i out))) \<le> length (in_flight w)"
proof (cases "at_index (in_flight w) i")
  case None
  then show ?thesis by (simp add: step_def)
next
  case (Some a)
  obtain off rq where a: "a = (off, rq)" by (cases a)
  let ?w = "w\<lparr>in_flight := remove_at (in_flight w) i\<rparr>"
  have l: "length (remove_at (in_flight w) i) \<le> length (in_flight w)"
    by (simp add: remove_at_def)
  have c: "requests (doUpload_catch ?w e) = requests w \<and>
      steamer (upload (doUpload_catch ?w e)) = steamer (upload w) \<and>
      in_flight (doUpload_catch ?w e) = remove_at (in_flight w) i" for e
    using assms by (simp add: doUpload_catch_eq)
  have t: "doUpload_then ?w off res = ?w" for res
    using assms by (simp add: doUpload_then_def)
  show ?thesis
    using Some a c t l
    by (simp add: step_def Let_def split: fetch_outcome.splits sum.splits)
qed

lemma cancel_after_done:
  assumes "state_done u"
  shows "currentState (Upload_cancel u) = DONE" and "state_cancel (Upload_cancel u)"
    and "oncancel u = Some cb \<Longrightarrow> calls (Upload_cancel u) = calls u @ [Call Oncancel cb None]"
    and "oncancel u = None \<Longrightarrow>
       eventQueue_oncancel (Upload_cancel u) = set_slot0 (eventQueue_oncancel u) True"
  using assms
  by (simp_all add: Upload_cancel_def state_set_cancel_def currentState_def Let_def
      split: option.splits)

text \<open>
  What does hold of Done and Cancelled: no event clears the done or the cancel flag, a
  chunk request that settles in these states sends nothing and starts no read, and
  after the one probe that \<open>resume()\<close> sends nothing more is sent.
\<close>

lemma terminal_states:
  assumes "currentState (upload w) = DONE \<or> currentState (upload w) = CANCEL"
  shows "(currentState (upload (step w ev)) = DONE \<or>
          currentState (upload (step w ev)) = CANCEL) \<and>
     requests (step w (Fetch_settled i out)) = requests w \<and>
     steamer (upload (step w (Fetch_settled i out))) = steamer (upload w) \<and>
     length (in_flight (step w (Fetch_settled i out))) \<le> length (in_flight w) \<and>
     requests (step w (Api Resume)) = requests w @ [probe (upload w)] \<and>
     in_flight (step w (Api Resume)) = in_flight w @ [(RESUME_OFFSET, probe (upload w))] \<and>
     \<not> state_pause (upload (step w (Api Resume))) \<and>
     requests (step (step w (Api Resume)) (Fetch_settled j out)) =
       requests w @ [probe (upload w)] \<and>
     (state_done (upload w) \<longrightarrow>
        currentState (upload (step w (Api Cancel))) = DONE \<and>
        state_cancel (upload (step w (Api Cancel))) \<and>
        (oncancel (upload w) = Some cb \<longrightarrow>
           calls (upload (step w (Api Cancel))) = calls (upload w) @ [Call Oncancel cb None]) \<and>
        (oncancel (upload w) = None \<longrightarrow>
           eventQueue_oncancel (upload (step w (Api Cancel))) =
             set_slot0 (eventQueue_oncancel (upload w)) True))"
proof -
  from assms have n: "currentState (upload w) \<noteq> INPROGRESS" by auto
  have r: "step w (Api Resume) = Upload_resume w"
    by (simp add: step_def api_call_def)
  from terminal_resume [OF assms] have "currentState (upload (Upload_resume w)) \<noteq> INPROGRESS"
    by auto
  from settle_not_in_progress [OF this, of j out]
  have 1: "requests (step (step w (Api Resume)) (Fetch_settled j out)) =
       requests w @ [probe (upload w)]"
    by (simp add: r requests_resume)
  have 2: "\<not> state_pause (upload (step w (Api Resume)))"
    by (simp add: r upload_resume state_set_pause_def Let_def split: option.splits)
  have c: "step w (Api Cancel) = w\<lparr>upload := Upload_cancel (upload w)\<rparr>"
    by (simp add: step_def api_call_def)
  show ?thesis
    using terminal_step [OF assms, of ev] settle_not_in_progress [OF n, of i out] 1 2
      cancel_after_done(1,2,4) [of "upload w"] cancel_after_done(3) [of "upload w" cb]
    by (simp add: r requests_resume in_flight_resume c)
qed

text \<open>
  C3. Once the Upload is Done or Cancelled, no chunk transfer should start and
  \<open>cancel()\<close> and \<open>resume()\<close> should do nothing. The second callback of \<open>doUpload\<close>
  and its \<open>catch\<close> check the state; its first callback, the callback of \<open>run\<close> and
  \<open>resume()\<close> do not, and neither does the cancel setter. For a file of 1048586
  bytes: when the page cancels while the first read is pending, the chunk
  \<open>bytes 0-1048575/1048586\<close> is still sent, the Upload being Cancelled; when the page
  cancels before the session is negotiated, the read is still started and the chunk
  sent; on an Upload that is Done, \<open>cancel()\<close> sets the flag and calls the cancel
  listener, and \<open>resume()\<close> sends a request.
\<close>

theorem C3_terminal_upload_still_sends:
  "(\<exists>w w'. run_page True True (Some example_file)
             [session_ok ''https://storage.example/session'', Api Cancel] = Inr w \<and>
           currentState (upload w) = CANCEL \<and> requests w = [] \<and>
           run_page True True (Some example_file)
             [session_ok ''https://storage.example/session'', Api Cancel, Read_loadend] =
             Inr w' \<and>
           currentState (upload w') = CANCEL \<and>
           map (\<lambda>rq. map_of (headers rq) ''Content-Range'') (requests w') =
             [Some ''bytes 0-1048575/1048586''] \<and>
           map body (requests w') = [Some \<lparr>data_start = 0, chunk_size = 1048576\<rparr>]) \<and>
   (\<exists>w w'. run_page True True (Some example_file) [Api Cancel] = Inr w \<and>
           currentState (upload w) = CANCEL \<and> requests w = [] \<and>
           reader (steamer (upload w)) = Idle \<and>
           run_page True True (Some example_file)
             [Api Cancel, session_ok ''https://storage.example/session'', Read_loadend] =
             Inr w' \<and>
           currentState (upload w') = CANCEL \<and>
           map (\<lambda>rq. map_of (headers rq) ''Content-Range'') (requests w') =
             [Some ''bytes 0-1048575/1048586'']) \<and>
   (\<exists>w. run_page True True (Some example_file)
         [Api (Listen_cancel 1), session_ok ''https://storage.example/session'',
          Read_loadend, respond 200 None] = Inr w \<and>
       currentState (upload w) = DONE \<and>
       calls (upload w) = [] \<and> \<not> state_cancel (upload w) \<and>
       calls (upload (step w (Api Cancel))) = [Call Oncancel 1 None] \<and>
       state_cancel (upload (step w (Api Cancel))) \<and>
       length (requests w) = 1 \<and>
       length (requests (step w (Api Resume))) = 2)"
  by (simp add: run_page_def run_True run_events_def step_def [of _ "Api _"] api_call_def
      listen_eqs step_session_ok new_Upload_def step_Read_loadend step_respond_done
      currentState_def Upload_done_def state_set_done_def Upload_cancel_def
      state_set_cancel_def requests_resume next_blob_def slice_def DEFAULT_CHUNK_SIZE_def
      example_file_def chunk_request_def start_of_def to_string_def show_nat.simps
      digit_char_def Let_def)

end
